theory Spec2Isabelle
  imports Main "HOL-Library.Product_Lexorder" "HOL-Library.Multiset"
begin

section \<open>Data model of \<open>calendar_api.py\<close>\<close>

text \<open>
  Exceptions the two methods can meet. \<open>HttpError\<close> comes from the calendar provider's
  client; the others are Python's built-in exceptions.
\<close>

datatype error = HttpError | ValueError | TypeError | KeyError | OverflowError

text \<open>
  A Python \<open>datetime\<close>, at its resolution of one microsecond. A naive value carries its
  wall-clock microseconds; an aware value carries its instant on the UTC time line and its
  UTC offset in minutes. Subtracting or comparing a naive and an aware value raises
  \<open>TypeError\<close>. \<open>total_seconds()\<close>, a float in the source, is read as the exact number:
  the float can differ from it only on a gap of more than a century, and the gaps of a
  day's window are shorter than a day.
\<close>

datatype datetime = Naive int | Aware int int

fun instant :: "datetime \<Rightarrow> int" where
  "instant (Naive w) = w"
| "instant (Aware i off) = i"

fun is_aware :: "datetime \<Rightarrow> bool" where
  "is_aware (Naive w) = False"
| "is_aware (Aware i off) = True"

text \<open>
  The local date and time a datetime shows, and the range of \<open>datetime\<close>: from
  0001-01-01T00:00:00 to 9999-12-31T23:59:59.999999, in microseconds from 1970-01-01.
\<close>

fun wall_clock :: "datetime \<Rightarrow> int" where
  "wall_clock (Naive w) = w"
| "wall_clock (Aware i off) = i + off * 60000000"

definition datetime_min :: int where
  "datetime_min = - 62135596800000000"

definition datetime_max :: int where
  "datetime_max = 253402300799999999"

text \<open>
  \<open>timedelta(minutes=n)\<close>, in microseconds: \<open>OverflowError\<close> when its days, \<open>n div 1440\<close>,
  exceed 999999999 in magnitude.
\<close>

definition timedelta_minutes :: "int \<Rightarrow> error + int" where
  "timedelta_minutes n =
     (if - 999999999 \<le> n div 1440 \<and> n div 1440 \<le> 999999999
      then Inr (n * 60000000) else Inl OverflowError)"

fun dt_shift :: "datetime \<Rightarrow> int \<Rightarrow> datetime" where
  "dt_shift (Naive w) td = Naive (w + td)"
| "dt_shift (Aware i off) td = Aware (i + td) off"

text \<open>
  \<open>dt + td\<close> for a timedelta of \<open>td\<close> microseconds: the time zone is kept, and the result
  must lie in the range of \<open>datetime\<close>, else \<open>OverflowError\<close>.
\<close>

definition dt_plus :: "datetime \<Rightarrow> int \<Rightarrow> error + datetime" where
  "dt_plus dt td =
     (if datetime_min \<le> wall_clock dt + td \<and> wall_clock dt + td \<le> datetime_max
      then Inr (dt_shift dt td) else Inl OverflowError)"

text \<open>\<open>dt + timedelta(minutes=n)\<close> and \<open>dt - timedelta(minutes=n)\<close>.\<close>

definition dt_add_minutes :: "datetime \<Rightarrow> int \<Rightarrow> error + datetime" where
  "dt_add_minutes dt n =
     (case timedelta_minutes n of Inl e \<Rightarrow> Inl e | Inr td \<Rightarrow> dt_plus dt td)"

definition dt_sub_minutes :: "datetime \<Rightarrow> int \<Rightarrow> error + datetime" where
  "dt_sub_minutes dt n =
     (case timedelta_minutes n of Inl e \<Rightarrow> Inl e | Inr td \<Rightarrow> dt_plus dt (- td))"

text \<open>\<open>a - b\<close> on two datetimes, as microseconds.\<close>

definition dt_diff :: "datetime \<Rightarrow> datetime \<Rightarrow> error + int" where
  "dt_diff a b = (if is_aware a = is_aware b then Inr (instant a - instant b) else Inl TypeError)"

text \<open>\<open>a > b\<close> on two datetimes.\<close>

definition dt_gt :: "datetime \<Rightarrow> datetime \<Rightarrow> error + bool" where
  "dt_gt a b = (if is_aware a = is_aware b then Inr (instant a > instant b) else Inl TypeError)"

text \<open>Python's \<open>max(a, b)\<close>: \<open>b\<close> when \<open>b > a\<close>, else \<open>a\<close>.\<close>

definition dt_max :: "datetime \<Rightarrow> datetime \<Rightarrow> error + datetime" where
  "dt_max a b = (case dt_gt b a of Inl e \<Rightarrow> Inl e | Inr g \<Rightarrow> Inr (if g then b else a))"

text \<open>\<open>int(td.total_seconds() / 60)\<close>: the minutes of a difference, truncated towards zero.\<close>

definition minutes_of :: "int \<Rightarrow> int" where
  "minutes_of us = (if 0 \<le> us then us div 60000000 else - ((- us) div 60000000))"

text \<open>\<open>s.replace('Z', '+00:00')\<close>.\<close>

definition replace_Z :: "string \<Rightarrow> string" where
  "replace_Z s = concat (map (\<lambda>c. if c = CHR ''Z'' then ''+00:00'' else [c]) s)"

text \<open>
  The \<open>start\<close> and \<open>end\<close> entry of a provider event: \<open>{'dateTime': s}\<close> for a timed event,
  \<open>{'date': s}\<close> for an all-day one.
\<close>

datatype etime = DateTime string | Date string

text \<open>
  A provider event resource. \<open>id\<close>, \<open>start\<close> and \<open>end\<close> are always present in a resource
  the provider returns; \<open>summary\<close> may be absent.
\<close>

record gevent =
  ev_id :: string
  ev_summary :: "string option"
  ev_start :: etime
  ev_end :: etime

text \<open>
  An element of the list \<open>check_conflicts\<close> returns: a conflict dictionary (title, start,
  end, id) or the dictionary \<open>{'error': ...}\<close>, of which the message prefix and the
  exception are kept.
\<close>

datatype entry = Conflict string string string string | ErrorEntry string error

text \<open>
  A free slot. The source stores \<open>isoformat()\<close> of the two datetimes; the model keeps the
  datetimes themselves.
\<close>

record slot =
  slot_start :: datetime
  slot_end :: datetime
  duration_minutes :: int

text \<open>
  What the methods take from outside the repository:
  \<^item> \<open>fromisoformat\<close>: \<open>datetime.fromisoformat\<close>, \<open>None\<close> where it raises \<open>ValueError\<close>;
  \<^item> \<open>strptime_ymd\<close>: \<open>datetime.strptime(date, '%Y-%m-%d')\<close>, the wall-clock microseconds
    of that midnight, \<open>None\<close> where it raises \<open>ValueError\<close>;
  \<^item> \<open>utcoffset_at\<close>: the UTC offset in minutes that \<open>self.timezone.localize\<close> attaches to a
    wall-clock time;
  \<^item> \<open>events_list\<close>: \<open>self.service.events().list(calendarId, timeMin, timeMax,
    singleEvents=True, orderBy='startTime').execute().get('items', [])\<close>, as a function of
    \<open>timeMin\<close> and \<open>timeMax\<close> (kept as datetimes; the source sends their \<open>isoformat()\<close>);
  \<^item> \<open>buffer_default\<close>: \<open>int(os.getenv('BUFFER_MINUTES', 15))\<close>.
\<close>

record env =
  fromisoformat :: "string \<Rightarrow> datetime option"
  strptime_ymd :: "string \<Rightarrow> int option"
  utcoffset_at :: "int \<Rightarrow> int"
  events_list :: "datetime \<Rightarrow> datetime \<Rightarrow> error + gevent list"
  buffer_default :: "error + int"

definition parse_iso :: "env \<Rightarrow> string \<Rightarrow> error + datetime" where
  "parse_iso env s =
     (case fromisoformat env (replace_Z s) of None \<Rightarrow> Inl ValueError | Some d \<Rightarrow> Inr d)"

section \<open>\<open>check_conflicts\<close>\<close>

fun timed :: "gevent \<Rightarrow> bool" where
  "timed event = (case ev_start event of DateTime s \<Rightarrow> True | Date s \<Rightarrow> False)"

fun etime_text :: "etime \<Rightarrow> string" where
  "etime_text (DateTime s) = s"
| "etime_text (Date s) = s"

text \<open>The dictionary appended for a timed event.\<close>

definition conflict_of :: "gevent \<Rightarrow> entry" where
  "conflict_of event =
     Conflict (case ev_summary event of None \<Rightarrow> ''No Title'' | Some t \<Rightarrow> t)
              (etime_text (ev_start event)) (etime_text (ev_end event)) (ev_id event)"

text \<open>
  The loop of lines 137 to 145. \<open>event['end']['dateTime']\<close> raises \<open>KeyError\<close> on an end
  without that key.
\<close>

fun conflicts_loop :: "gevent list \<Rightarrow> entry list \<Rightarrow> error + entry list" where
  "conflicts_loop [] conflicts = Inr conflicts"
| "conflicts_loop (event # events) conflicts =
     (case ev_start event of
        Date d \<Rightarrow> conflicts_loop events conflicts
      | DateTime s \<Rightarrow>
          (case ev_end event of
             Date d \<Rightarrow> Inl KeyError
           | DateTime t \<Rightarrow> conflicts_loop events (conflicts @ [conflict_of event])))"

text \<open>The body of the \<open>try\<close> block, lines 116 to 147.\<close>

definition check_conflicts_try ::
    "env \<Rightarrow> string \<Rightarrow> string \<Rightarrow> int option \<Rightarrow> error + (bool \<times> entry list)" where
  "check_conflicts_try env start_time end_time buffer_minutes =
     (case (case buffer_minutes of None \<Rightarrow> buffer_default env | Some b \<Rightarrow> Inr b) of
        Inl e \<Rightarrow> Inl e
      | Inr buffer \<Rightarrow>
     (case parse_iso env start_time of
        Inl e \<Rightarrow> Inl e
      | Inr start_dt \<Rightarrow>
     (case parse_iso env end_time of
        Inl e \<Rightarrow> Inl e
      | Inr end_dt \<Rightarrow>
     (case dt_sub_minutes start_dt buffer of
        Inl e \<Rightarrow> Inl e
      | Inr buffer_start \<Rightarrow>
     (case dt_add_minutes end_dt buffer of
        Inl e \<Rightarrow> Inl e
      | Inr buffer_end \<Rightarrow>
     (case events_list env buffer_start buffer_end of
        Inl e \<Rightarrow> Inl e
      | Inr events \<Rightarrow>
     (case conflicts_loop events [] of
        Inl e \<Rightarrow> Inl e
      | Inr conflicts \<Rightarrow> Inr (length conflicts > 0, conflicts))))))))"

text \<open>
  The method with its two handlers, lines 149 to 152. The result is a sum so that "raises"
  can be said of it: \<open>Inl\<close> would be an exception reaching the caller.
\<close>

definition check_conflicts ::
    "env \<Rightarrow> string \<Rightarrow> string \<Rightarrow> int option \<Rightarrow> error + (bool \<times> entry list)" where
  "check_conflicts env start_time end_time buffer_minutes =
     (case check_conflicts_try env start_time end_time buffer_minutes of
        Inr r \<Rightarrow> Inr r
      | Inl HttpError \<Rightarrow> Inr (False, [ErrorEntry ''API error: '' HttpError])
      | Inl e \<Rightarrow> Inr (False, [ErrorEntry ''Unexpected error: '' e]))"

section \<open>\<open>find_free_slots\<close>\<close>

text \<open>\<open>date_obj.replace(hour=h, minute=0, second=0)\<close> on a midnight.\<close>

definition replace_hour :: "int \<Rightarrow> int \<Rightarrow> error + int" where
  "replace_hour midnight h =
     (if 0 \<le> h \<and> h \<le> 23 then Inr (midnight + h * 3600000000) else Inl ValueError)"

text \<open>\<open>self.timezone.localize\<close> of a naive wall-clock time.\<close>

definition localize :: "env \<Rightarrow> int \<Rightarrow> datetime" where
  "localize env w = Aware (w - utcoffset_at env w * 60000000) (utcoffset_at env w)"

text \<open>The working-hours window, lines 280 to 286.\<close>

definition window :: "env \<Rightarrow> string \<Rightarrow> int \<Rightarrow> int \<Rightarrow> error + (datetime \<times> datetime)" where
  "window env date work_start_hour work_end_hour =
     (case strptime_ymd env date of
        None \<Rightarrow> Inl ValueError
      | Some date_obj \<Rightarrow>
     (case replace_hour date_obj work_start_hour of
        Inl e \<Rightarrow> Inl e
      | Inr ws \<Rightarrow>
     (case replace_hour date_obj work_end_hour of
        Inl e \<Rightarrow> Inl e
      | Inr we \<Rightarrow> Inr (localize env ws, localize env we))))"

definition mk_slot :: "datetime \<Rightarrow> datetime \<Rightarrow> int \<Rightarrow> slot" where
  "mk_slot a b gap = \<lparr>slot_start = a, slot_end = b, duration_minutes = minutes_of gap\<rparr>"

text \<open>
  The loop of lines 303 to 320, with the cursor \<open>current_time\<close> and the list \<open>free_slots\<close>
  as its state.
\<close>

fun slots_loop ::
    "env \<Rightarrow> int \<Rightarrow> gevent list \<Rightarrow> datetime \<Rightarrow> slot list \<Rightarrow> error + (datetime \<times> slot list)" where
  "slots_loop env duration [] current_time free_slots = Inr (current_time, free_slots)"
| "slots_loop env duration (event # events) current_time free_slots =
     (case ev_start event of
        Date d \<Rightarrow> slots_loop env duration events current_time free_slots
      | DateTime s \<Rightarrow>
     (case parse_iso env s of
        Inl e \<Rightarrow> Inl e
      | Inr event_start \<Rightarrow>
     (case dt_diff event_start current_time of
        Inl e \<Rightarrow> Inl e
      | Inr gap \<Rightarrow>
     (case ev_end event of
        Date d \<Rightarrow> Inl KeyError
      | DateTime t \<Rightarrow>
     (case parse_iso env t of
        Inl e \<Rightarrow> Inl e
      | Inr event_end \<Rightarrow>
     (case dt_max current_time event_end of
        Inl e \<Rightarrow> Inl e
      | Inr current_time' \<Rightarrow>
          slots_loop env duration events current_time'
            (if gap \<ge> duration * 60000000
             then free_slots @ [mk_slot current_time event_start gap]
             else free_slots)))))))"

text \<open>The check after the loop, lines 323 to 330.\<close>

definition trailing_slot :: "int \<Rightarrow> datetime \<Rightarrow> datetime \<Rightarrow> slot list \<Rightarrow> error + slot list" where
  "trailing_slot duration end_time current_time free_slots =
     (case dt_diff end_time current_time of
        Inl e \<Rightarrow> Inl e
      | Inr gap \<Rightarrow>
          Inr (if gap \<ge> duration * 60000000
               then free_slots @ [mk_slot current_time end_time gap]
               else free_slots))"

text \<open>The body of the \<open>try\<close> block, lines 280 to 330.\<close>

definition find_free_slots_try :: "env \<Rightarrow> string \<Rightarrow> int \<Rightarrow> int \<Rightarrow> int \<Rightarrow> error + slot list" where
  "find_free_slots_try env date duration work_start_hour work_end_hour =
     (case window env date work_start_hour work_end_hour of
        Inl e \<Rightarrow> Inl e
      | Inr (start_time, end_time) \<Rightarrow>
     (case events_list env start_time end_time of
        Inl e \<Rightarrow> Inl e
      | Inr events \<Rightarrow>
     (case slots_loop env duration events start_time [] of
        Inl e \<Rightarrow> Inl e
      | Inr (current_time, free_slots) \<Rightarrow>
          trailing_slot duration end_time current_time free_slots)))"

text \<open>The method with its handler, lines 332 to 334: any exception gives the empty list.\<close>

definition find_free_slots :: "env \<Rightarrow> string \<Rightarrow> int \<Rightarrow> int \<Rightarrow> int \<Rightarrow> error + slot list" where
  "find_free_slots env date duration work_start_hour work_end_hour =
     (case find_free_slots_try env date duration work_start_hour work_end_hour of
        Inl e \<Rightarrow> Inr []
      | Inr r \<Rightarrow> Inr r)"

section \<open>\<open>schedule_event\<close> of \<open>ui_app.py\<close>\<close>

text \<open>
  The branch \<open>schedule_event\<close> takes after its call of \<open>check_conflicts\<close> (lines 298 to
  334): the conflict screen when the boolean is true, the call of \<open>create_event\<close>
  otherwise. \<open>buffer_time\<close> is \<open>st.session_state.get('buffer_time', 15)\<close>.
\<close>

datatype ui_step = ShowConflicts "entry list" | CreateEvent string string

definition schedule_event :: "env \<Rightarrow> int option \<Rightarrow> string \<Rightarrow> string \<Rightarrow> error + ui_step" where
  "schedule_event env buffer_time start_time end_time =
     (case check_conflicts env start_time end_time
             (Some (case buffer_time of None \<Rightarrow> 15 | Some b \<Rightarrow> b)) of
        Inl e \<Rightarrow> Inl e
      | Inr (has_conflicts, conflicts) \<Rightarrow>
          Inr (if has_conflicts then ShowConflicts conflicts
               else CreateEvent start_time end_time))"

section \<open>The specification's words\<close>

text \<open>
  The overlap test of the specification, on a provider event: \<open>b.start < padded.end\<close> and
  \<open>b.end > padded.start\<close>, for an event with both timestamps readable.
\<close>

definition spec_overlap ::
    "(string \<Rightarrow> datetime option) \<Rightarrow> datetime \<Rightarrow> datetime \<Rightarrow> gevent \<Rightarrow> bool" where
  "spec_overlap parse padded_start padded_end b =
     (case (ev_start b, ev_end b) of
        (DateTime s, DateTime t) \<Rightarrow>
          (case (parse (replace_Z s), parse (replace_Z t)) of
             (Some bs, Some be) \<Rightarrow>
               dt_gt padded_end bs = Inr True \<and> dt_gt be padded_start = Inr True
           | _ \<Rightarrow> False)
      | _ \<Rightarrow> False)"

text \<open>
  The sort of the specification: all-day entries dropped, the others by start time
  ascending, then by end time ascending.
\<close>

definition spec_key :: "(string \<Rightarrow> datetime option) \<Rightarrow> gevent \<Rightarrow> int \<times> int" where
  "spec_key parse b =
     (case parse (replace_Z (etime_text (ev_start b))) of None \<Rightarrow> 0 | Some d \<Rightarrow> instant d,
      case parse (replace_Z (etime_text (ev_end b))) of None \<Rightarrow> 0 | Some d \<Rightarrow> instant d)"

definition spec_sort_busy :: "(string \<Rightarrow> datetime option) \<Rightarrow> gevent list \<Rightarrow> gevent list" where
  "spec_sort_busy parse busy = sort_key (spec_key parse) (filter timed busy)"

text \<open>
  The sweep of the specification over busy intervals in the order given: a cursor starts
  at the window's start; before each busy interval a slot from the cursor to the
  interval's start is emitted if it is at least the minimum long, and the cursor becomes
  the later of the cursor and the interval's end; after the last interval a trailing slot
  up to the window's end is emitted if it is at least the minimum long.
\<close>

fun spec_sweep :: "int \<Rightarrow> datetime \<Rightarrow> (datetime \<times> datetime) list \<Rightarrow> datetime \<Rightarrow> slot list" where
  "spec_sweep min_duration window_end [] cursor =
     (if min_duration * 60000000 \<le> instant window_end - instant cursor
      then [mk_slot cursor window_end (instant window_end - instant cursor)] else [])"
| "spec_sweep min_duration window_end (interval # rest) cursor =
     (if min_duration * 60000000 \<le> instant (fst interval) - instant cursor
      then [mk_slot cursor (fst interval) (instant (fst interval) - instant cursor)] else [])
     @ spec_sweep min_duration window_end rest
         (if instant cursor < instant (snd interval) then snd interval else cursor)"

text \<open>The start and the end of a provider event as datetimes.\<close>

definition interval_of :: "(string \<Rightarrow> datetime option) \<Rightarrow> gevent \<Rightarrow> datetime \<times> datetime" where
  "interval_of parse b =
     (case parse (replace_Z (etime_text (ev_start b))) of None \<Rightarrow> Naive 0 | Some d \<Rightarrow> d,
      case parse (replace_Z (etime_text (ev_end b))) of None \<Rightarrow> Naive 0 | Some d \<Rightarrow> d)"

text \<open>
  The Free-Slot Finder of the specification: all-day entries excluded, the others sorted,
  then the sweep from the window's start.
\<close>

definition spec_find_free_slots ::
    "(string \<Rightarrow> datetime option) \<Rightarrow> int \<Rightarrow> datetime \<Rightarrow> datetime \<Rightarrow> gevent list \<Rightarrow> slot list" where
  "spec_find_free_slots parse min_duration window_start window_end busy =
     spec_sweep min_duration window_end
       (map (interval_of parse) (spec_sort_busy parse busy)) window_start"

text \<open>
  The interval invariant of the data model, relaxed to \<open>start \<le> end\<close>, on a provider event
  whose timestamps are readable.
\<close>

definition well_formed :: "env \<Rightarrow> gevent \<Rightarrow> bool" where
  "well_formed env b =
     (case (ev_start b, ev_end b) of
        (DateTime s, DateTime t) \<Rightarrow>
          (case (parse_iso env s, parse_iso env t) of
             (Inr bs, Inr be) \<Rightarrow> instant bs \<le> instant be
           | _ \<Rightarrow> True)
      | _ \<Rightarrow> True)"

text \<open>A timed provider event with a start or an end timestamp that does not parse.\<close>

definition unreadable :: "env \<Rightarrow> gevent \<Rightarrow> bool" where
  "unreadable env b =
     (case ev_start b of
        Date d \<Rightarrow> False
      | DateTime s \<Rightarrow>
          parse_iso env s = Inl ValueError
          \<or> (case ev_end b of Date d \<Rightarrow> False | DateTime t \<Rightarrow> parse_iso env t = Inl ValueError))"

text \<open>A slot at least \<open>duration\<close> minutes long, by its ends and by its stored minutes.\<close>

definition long_enough :: "int \<Rightarrow> slot \<Rightarrow> bool" where
  "long_enough duration s =
     (duration * 60000000 \<le> instant (slot_end s) - instant (slot_start s)
      \<and> duration \<le> duration_minutes s)"

text \<open>Slots in chronological order, none overlapping a later one.\<close>

definition chronological :: "slot list \<Rightarrow> bool" where
  "chronological slots = sorted_wrt (\<lambda>a b. instant (slot_end a) \<le> instant (slot_start b)) slots"

section \<open>A provider that honours the query\<close>

text \<open>
  The calendar provider is outside the repository. Both methods send it \<open>timeMin\<close>,
  \<open>timeMax\<close>, \<open>singleEvents=True\<close> and \<open>orderBy='startTime'\<close> (lines 127 to 133 and 289 to
  295) and rely on what these ask for: events that end after \<open>timeMin\<close> and start before
  \<open>timeMax\<close>, ordered by start time. \<open>provider_list\<close> is a provider that holds a calendar
  and answers so: the timed entries that overlap the range, by ascending start time,
  entries with one start time in the calendar's order. The all-day entries of the
  calendar, which carry no time of day, are taken to be of the day asked for and are
  listed first; both methods skip them wherever they stand.
\<close>

definition start_key :: "(string \<Rightarrow> datetime option) \<Rightarrow> gevent \<Rightarrow> int" where
  "start_key parse b =
     (case parse (replace_Z (etime_text (ev_start b))) of None \<Rightarrow> 0 | Some d \<Rightarrow> instant d)"

definition provider_list ::
    "(string \<Rightarrow> datetime option) \<Rightarrow> gevent list \<Rightarrow> datetime \<Rightarrow> datetime \<Rightarrow> error + gevent list" where
  "provider_list parse calendar time_min time_max =
     Inr (filter (\<lambda>b. \<not> timed b) calendar
          @ sort_key (start_key parse) (filter (spec_overlap parse time_min time_max) calendar))"

definition provider_env :: "env \<Rightarrow> gevent list \<Rightarrow> env" where
  "provider_env env calendar = env\<lparr>events_list := provider_list (fromisoformat env) calendar\<rparr>"

text \<open>
  The timestamps of a provider event are in the time zone with UTC offset \<open>off\<close>, as far as
  they are readable and carry an offset. The provider writes every timestamp of an answer
  in one time zone, the calendar's.
\<close>

fun zone_ok :: "int \<Rightarrow> datetime option \<Rightarrow> bool" where
  "zone_ok off (Some (Aware i off')) = (off' = off)"
| "zone_ok off (Some (Naive w)) = True"
| "zone_ok off None = True"

definition one_zone :: "(string \<Rightarrow> datetime option) \<Rightarrow> int \<Rightarrow> gevent \<Rightarrow> bool" where
  "one_zone parse off b =
     (zone_ok off (parse (replace_Z (etime_text (ev_start b))))
      \<and> zone_ok off (parse (replace_Z (etime_text (ev_end b)))))"

text \<open>
  A timed provider event whose two timestamps are readable in the time zone with UTC
  offset \<open>off\<close> and that does not end before it starts.
\<close>

definition zoned :: "(string \<Rightarrow> datetime option) \<Rightarrow> int \<Rightarrow> gevent \<Rightarrow> bool" where
  "zoned parse off b =
     (case ev_start b of
        Date s \<Rightarrow> False
      | DateTime s \<Rightarrow>
     (case ev_end b of
        Date t \<Rightarrow> False
      | DateTime t \<Rightarrow>
     (case parse (replace_Z s) of
        None \<Rightarrow> False
      | Some (Naive w) \<Rightarrow> False
      | Some (Aware i off1) \<Rightarrow>
     (case parse (replace_Z t) of
        None \<Rightarrow> False
      | Some (Naive w) \<Rightarrow> False
      | Some (Aware j off2) \<Rightarrow> off1 = off \<and> off2 = off \<and> i \<le> j))))"

section \<open>A concrete day\<close>

text \<open>
  The environment the concrete runs use: 15 January 2024 in a zone at UTC+05:30.
  \<open>ist h m\<close> is the aware datetime of \<open>h:m\<close> on that day; \<open>day_iso\<close> reads the
  timestamps that occur in the runs and no other string.
\<close>

definition ist :: "int \<Rightarrow> int \<Rightarrow> datetime" where
  "ist h m = Aware (1705257000000000 + (h * 60 + m) * 60000000) 330"

definition day_iso :: "string \<Rightarrow> datetime option" where
  "day_iso = map_of
     [(''2024-01-15T08:00:00+05:30'', ist 8 0),
      (''2024-01-15T09:00:00+05:30'', ist 9 0),
      (''2024-01-15T10:00:00+05:30'', ist 10 0),
      (''2024-01-15T11:00:00+05:30'', ist 11 0),
      (''2024-01-15T12:00:00+05:30'', ist 12 0),
      (''2024-01-15T13:00:00+05:30'', ist 13 0),
      (''2024-01-15T14:00:00+05:30'', ist 14 0),
      (''2024-01-15T15:00:00+05:30'', ist 15 0),
      (''2024-01-15T15:10:00+05:30'', ist 15 10),
      (''2024-01-15T16:00:00+05:30'', ist 16 0),
      (''2024-01-15T17:00:00+05:30'', ist 17 0),
      (''2024-01-15T18:00:00+05:30'', ist 18 0),
      (''2024-01-15T19:00:00+05:30'', ist 19 0),
      (''2024-01-15T20:00:00+05:30'', ist 20 0)]"

definition timed_event :: "string \<Rightarrow> string \<Rightarrow> string \<Rightarrow> gevent" where
  "timed_event i s t = \<lparr>ev_id = i, ev_summary = Some ''Busy'', ev_start = DateTime s, ev_end = DateTime t\<rparr>"

definition all_day_event :: "string \<Rightarrow> string \<Rightarrow> string \<Rightarrow> gevent" where
  "all_day_event i s t = \<lparr>ev_id = i, ev_summary = None, ev_start = Date s, ev_end = Date t\<rparr>"

text \<open>
  A provider that answers every listing with the same events. It stands for the calendar
  provider only where that list is an answer to the query sent: timed events that end
  after \<open>timeMin\<close> and start before \<open>timeMax\<close>, in the order of their start times.
\<close>

definition day_env :: "gevent list \<Rightarrow> env" where
  "day_env events =
     \<lparr>fromisoformat = day_iso,
      strptime_ymd = map_of [(''2024-01-15'', 1705276800000000)],
      utcoffset_at = (\<lambda>w. 330),
      events_list = (\<lambda>time_min time_max. Inr events),
      buffer_default = Inr 15\<rparr>"

text \<open>The concrete day with a provider that holds a calendar and honours the query.\<close>

definition ranged_env :: "gevent list \<Rightarrow> env" where
  "ranged_env calendar = provider_env (day_env []) calendar"

section \<open>Lemmas on the two loops\<close>

lemma conflicts_loop_timed:
  "\<forall>b\<in>set events. timed b \<longrightarrow> (\<exists>t. ev_end b = DateTime t) \<Longrightarrow>
   conflicts_loop events conflicts = Inr (conflicts @ map conflict_of (filter timed events))"
  by (induction events arbitrary: conflicts) (auto split: etime.splits)

lemma minutes_of_ge: "d * 60000000 \<le> gap \<Longrightarrow> d \<le> minutes_of gap"
  unfolding minutes_of_def by (auto simp: algebra_simps)

lemma slots_loop_all_day:
  "slots_loop env d events cur slots = slots_loop env d (filter timed events) cur slots"
  by (induction events arbitrary: cur slots) (auto split: etime.splits sum.splits)

lemma slots_loop_step:
  assumes "slots_loop env d (b # events) cur slots = Inr r" and "timed b"
  shows "\<exists>s t bs be. ev_start b = DateTime s \<and> ev_end b = DateTime t
           \<and> parse_iso env s = Inr bs \<and> parse_iso env t = Inr be
           \<and> is_aware bs = is_aware cur \<and> is_aware be = is_aware cur
           \<and> slots_loop env d events (if instant cur < instant be then be else cur)
                (if d * 60000000 \<le> instant bs - instant cur
                 then slots @ [mk_slot cur bs (instant bs - instant cur)] else slots) = Inr r"
  using assms
  by (auto simp: dt_diff_def dt_max_def dt_gt_def split: etime.splits sum.splits if_splits)

lemma slots_loop_untimed:
  "\<not> timed b \<Longrightarrow> slots_loop env d (b # events) cur slots = slots_loop env d events cur slots"
  by (auto split: etime.splits)

lemma long_enough_mk_slot:
  "d * 60000000 \<le> instant b - instant a \<Longrightarrow> long_enough d (mk_slot a b (instant b - instant a))"
  by (simp add: long_enough_def mk_slot_def minutes_of_ge)

lemma slots_loop_cursor:
  "slots_loop env d events cur slots = Inr (cur', slots') \<Longrightarrow>
   instant cur \<le> instant cur' \<and> is_aware cur' = is_aware cur
   \<and> (\<exists>new. slots' = slots @ new
        \<and> (\<forall>s\<in>set new. instant cur \<le> instant (slot_start s) \<and> long_enough d s))"
proof (induction events arbitrary: cur slots)
  case Nil
  then show ?case by simp
next
  case (Cons b events)
  show ?case
  proof (cases "timed b")
    case False
    have "slots_loop env d events cur slots = Inr (cur', slots')"
      using Cons.prems slots_loop_untimed[OF False] by metis
    then show ?thesis by (rule Cons.IH)
  next
    case True
    from slots_loop_step[OF Cons.prems True] obtain bs be where
      step: "slots_loop env d events (if instant cur < instant be then be else cur)
                (if d * 60000000 \<le> instant bs - instant cur
                 then slots @ [mk_slot cur bs (instant bs - instant cur)] else slots) = Inr (cur', slots')"
      and aw: "is_aware be = is_aware cur"
      by blast
    from Cons.IH[OF step] obtain new where
      c: "instant (if instant cur < instant be then be else cur) \<le> instant cur'"
      and a: "is_aware cur' = is_aware (if instant cur < instant be then be else cur)"
      and n: "slots' = (if d * 60000000 \<le> instant bs - instant cur
                 then slots @ [mk_slot cur bs (instant bs - instant cur)] else slots) @ new"
      and m: "\<forall>s\<in>set new. instant (if instant cur < instant be then be else cur) \<le> instant (slot_start s) \<and> long_enough d s"
      by blast
    have le: "instant cur \<le> instant (if instant cur < instant be then be else cur)" by simp
    have 1: "instant cur \<le> instant cur'" using c le by linarith
    have 2: "is_aware cur' = is_aware cur" using a aw by simp
    have 3: "\<forall>s\<in>set new. instant cur \<le> instant (slot_start s) \<and> long_enough d s"
      using m le by fastforce
    show ?thesis
    proof (cases "d * 60000000 \<le> instant bs - instant cur")
      case True
      then have "slots' = slots @ (mk_slot cur bs (instant bs - instant cur) # new)"
        using n by simp
      moreover have "\<forall>s\<in>set (mk_slot cur bs (instant bs - instant cur) # new).
          instant cur \<le> instant (slot_start s) \<and> long_enough d s"
        using 3 long_enough_mk_slot[OF True] by (simp add: mk_slot_def)
      ultimately show ?thesis using 1 2 by blast
    next
      case False
      then have "slots' = slots @ new" using n by simp
      then show ?thesis using 1 2 3 by blast
    qed
  qed
qed

lemma chronological_snoc:
  "chronological slots \<Longrightarrow> \<forall>s\<in>set slots. instant (slot_end s) \<le> instant (slot_start x) \<Longrightarrow>
   chronological (slots @ [x])"
  by (simp add: chronological_def sorted_wrt_append)

lemma slots_loop_chronological:
  "slots_loop env d events cur slots = Inr (cur', slots') \<Longrightarrow>
   \<forall>b\<in>set events. well_formed env b \<Longrightarrow>
   chronological slots \<Longrightarrow> \<forall>s\<in>set slots. instant (slot_end s) \<le> instant cur \<Longrightarrow>
   chronological slots' \<and> (\<forall>s\<in>set slots'. instant (slot_end s) \<le> instant cur')"
proof (induction events arbitrary: cur slots)
  case Nil
  then show ?case by simp
next
  case (Cons b events)
  show ?case
  proof (cases "timed b")
    case False
    have "slots_loop env d events cur slots = Inr (cur', slots')"
      using Cons.prems(1) slots_loop_untimed[OF False] by metis
    then show ?thesis using Cons.IH Cons.prems by simp
  next
    case True
    let ?cur = "\<lambda>be. if instant cur < instant be then be else cur"
    let ?sl = "\<lambda>bs. if d * 60000000 \<le> instant bs - instant cur
                 then slots @ [mk_slot cur bs (instant bs - instant cur)] else slots"
    from slots_loop_step[OF Cons.prems(1) True] obtain s t bs be where
      st: "ev_start b = DateTime s" "ev_end b = DateTime t"
        "parse_iso env s = Inr bs" "parse_iso env t = Inr be"
      and step: "slots_loop env d events (?cur be) (?sl bs) = Inr (cur', slots')"
      by blast
    have wf: "instant bs \<le> instant be"
      using Cons.prems(2) st by (simp add: well_formed_def)
    have ch: "chronological (?sl bs)"
      using Cons.prems(3,4) by (auto intro!: chronological_snoc simp: mk_slot_def)
    have en: "\<forall>s\<in>set (?sl bs). instant (slot_end s) \<le> instant (?cur be)"
      using Cons.prems(4) wf by (auto simp: mk_slot_def)
    show ?thesis
      using Cons.IH[OF step _ ch en] Cons.prems(2) by simp
  qed
qed

lemmas run_simps =
  find_free_slots_def find_free_slots_try_def window_def day_env_def ranged_env_def
  replace_hour_def localize_def timed_event_def all_day_event_def parse_iso_def replace_Z_def
  day_iso_def ist_def dt_diff_def dt_max_def dt_gt_def trailing_slot_def mk_slot_def
  minutes_of_def check_conflicts_def check_conflicts_try_def conflict_of_def
  spec_overlap_def schedule_event_def timedelta_minutes_def dt_plus_def dt_add_minutes_def
  dt_sub_minutes_def datetime_min_def datetime_max_def provider_env_def provider_list_def
  start_key_def

lemma trailing_slot_aware:
  "is_aware cur = is_aware we \<Longrightarrow>
   trailing_slot d we cur slots =
     Inr (if d * 60000000 \<le> instant we - instant cur
          then slots @ [mk_slot cur we (instant we - instant cur)] else slots)"
  by (simp add: trailing_slot_def dt_diff_def)

lemma window_aware:
  "window env date hs he = Inr (ws, we) \<Longrightarrow> is_aware ws \<and> is_aware we"
  by (auto simp: window_def localize_def split: option.splits sum.splits)

lemma long_enough_positive:
  "0 < d \<Longrightarrow> long_enough d s \<Longrightarrow> instant (slot_start s) < instant (slot_end s)"
  by (simp add: long_enough_def)

lemma find_free_slots_unfold:
  assumes w: "window env date hs he = Inr (ws, we)"
    and l: "events_list env ws we = Inr events"
    and r: "slots_loop env d events ws [] = Inr (cur, slots)"
  shows "find_free_slots env date d hs he =
     Inr (if d * 60000000 \<le> instant we - instant cur
          then slots @ [mk_slot cur we (instant we - instant cur)] else slots)"
proof -
  have "is_aware cur = is_aware we"
    using slots_loop_cursor[OF r] window_aware[OF w] by simp
  then show ?thesis
    using w l r by (simp add: find_free_slots_def find_free_slots_try_def trailing_slot_aware)
qed

lemma find_free_slots_cases:
  "find_free_slots env date d hs he = Inr []
   \<or> (\<exists>ws we events cur slots. window env date hs he = Inr (ws, we)
        \<and> events_list env ws we = Inr events
        \<and> slots_loop env d events ws [] = Inr (cur, slots))"
  by (auto simp: find_free_slots_def find_free_slots_try_def split: sum.splits)

lemma slots_ok_result:
  assumes d: "0 < d"
    and w: "window env date hs he = Inr (ws, we)"
    and l: "events_list env ws we = Inr events"
    and r: "slots_loop env d events ws [] = Inr (cur, slots)"
    and wf: "\<forall>b\<in>set events. well_formed env b"
    and res: "find_free_slots env date d hs he = Inr result"
  shows "(\<forall>s\<in>set result. long_enough d s) \<and> chronological result"
proof -
  from slots_loop_cursor[OF r] have le: "\<forall>s\<in>set slots. long_enough d s" by auto
  from slots_loop_chronological[OF r wf] have
    ch: "chronological slots" and en: "\<forall>s\<in>set slots. instant (slot_end s) \<le> instant cur"
    by (simp_all add: chronological_def)
  show ?thesis
  proof (cases "d * 60000000 \<le> instant we - instant cur")
    case True
    then have "result = slots @ [mk_slot cur we (instant we - instant cur)]"
      using find_free_slots_unfold[OF w l r] res by simp
    moreover have "chronological (slots @ [mk_slot cur we (instant we - instant cur)])"
      using ch en by (auto intro!: chronological_snoc simp: mk_slot_def)
    ultimately show ?thesis using le long_enough_mk_slot[OF True] by auto
  next
    case False
    then have "result = slots" using find_free_slots_unfold[OF w l r] res by simp
    then show ?thesis using le ch by simp
  qed
qed

lemma no_timed_whole_window:
  assumes w: "window env date hs he = Inr (ws, we)"
    and l: "events_list env ws we = Inr events"
    and n: "filter timed events = []"
  shows "find_free_slots env date d hs he =
     Inr (if d * 60000000 \<le> instant we - instant ws
          then [mk_slot ws we (instant we - instant ws)] else [])"
proof -
  have "slots_loop env d events ws [] = Inr (ws, [])"
    using slots_loop_all_day[of env d events ws "[]"] n by simp
  from find_free_slots_unfold[OF w l this] show ?thesis by simp
qed

lemma parse_iso_events_list_update [simp]:
  "parse_iso (env\<lparr>events_list := f\<rparr>) s = parse_iso env s"
  by (simp add: parse_iso_def)

lemma slots_loop_events_list_update [simp]:
  "slots_loop (env\<lparr>events_list := f\<rparr>) d events cur slots = slots_loop env d events cur slots"
  by (induction events arbitrary: cur slots) (simp_all split: etime.splits sum.splits)

lemma window_events_list_update [simp]:
  "window (env\<lparr>events_list := f\<rparr>) date hs he = window env date hs he"
  by (simp add: window_def localize_def split: option.splits sum.splits)

lemma find_free_slots_listing:
  "find_free_slots (env\<lparr>events_list := (\<lambda>time_min time_max. Inr busy)\<rparr>) date d hs he =
     (case window env date hs he of
        Inl e \<Rightarrow> Inr []
      | Inr w \<Rightarrow>
          (case slots_loop env d busy (fst w) [] of
             Inl e \<Rightarrow> Inr []
           | Inr r \<Rightarrow>
               (case trailing_slot d (snd w) (fst r) (snd r) of
                  Inl e \<Rightarrow> Inr []
                | Inr slots \<Rightarrow> Inr slots)))"
  by (simp add: find_free_slots_def find_free_slots_try_def split: sum.splits prod.splits)

lemmas sort_simps = spec_sort_busy_def spec_key_def

lemma check_conflicts_listing:
  assumes "parse_iso env start_time = Inr start_dt" and "parse_iso env end_time = Inr end_dt"
    and "dt_sub_minutes start_dt buffer = Inr buffer_start"
    and "dt_add_minutes end_dt buffer = Inr buffer_end"
    and "events_list env buffer_start buffer_end = Inr events"
    and "conflicts_loop events [] = Inr conflicts"
  shows "check_conflicts env start_time end_time (Some buffer) = Inr (conflicts \<noteq> [], conflicts)"
  using assms by (simp add: check_conflicts_def check_conflicts_try_def)

lemma spec_overlap_timed:
  "spec_overlap parse a b e \<Longrightarrow> timed e \<and> (\<exists>t. ev_end e = DateTime t)"
  by (auto simp: spec_overlap_def split: etime.splits)

lemma filter_timed_overlap:
  "filter timed (filter (spec_overlap parse a b) busy) = filter (spec_overlap parse a b) busy"
  by (induction busy) (auto dest: spec_overlap_timed simp del: timed.simps)

lemma slots_loop_readable:
  "slots_loop env d events cur slots = Inr r \<Longrightarrow> b \<in> set events \<Longrightarrow> \<not> unreadable env b"
proof (induction events arbitrary: cur slots)
  case Nil
  then show ?case by simp
next
  case (Cons x events)
  show ?case
  proof (cases "timed x")
    case False
    have tail: "slots_loop env d events cur slots = Inr r"
      using Cons.prems(1) slots_loop_untimed[OF False] by metis
    have "\<not> unreadable env x" using False by (simp add: unreadable_def split: etime.splits)
    then show ?thesis using Cons.IH[OF tail] Cons.prems(2) by auto
  next
    case True
    from slots_loop_step[OF Cons.prems(1) True] obtain s t bs be cur2 slots2 where
      st: "ev_start x = DateTime s" "ev_end x = DateTime t"
        "parse_iso env s = Inr bs" "parse_iso env t = Inr be"
      and tail: "slots_loop env d events cur2 slots2 = Inr r"
      by blast
    have "\<not> unreadable env x" using st by (simp add: unreadable_def)
    then show ?thesis using Cons.IH[OF tail] Cons.prems(2) by auto
  qed
qed

lemma find_free_slots_unreadable:
  assumes "window env date hs he = Inr (ws, we)" and "events_list env ws we = Inr events"
    and "b \<in> set events" and "unreadable env b"
  shows "find_free_slots env date d hs he = Inr []"
proof -
  have "\<exists>e. slots_loop env d events ws [] = Inl e"
    using slots_loop_readable[of env d events ws "[]" _ b] assms(3,4)
    by (cases "slots_loop env d events ws []") auto
  then show ?thesis
    using assms(1,2) by (auto simp: find_free_slots_def find_free_slots_try_def)
qed

lemma check_conflicts_returns: "\<exists>r. check_conflicts env s e bm = Inr r"
  by (auto simp: check_conflicts_def split: sum.splits error.splits)

lemma find_free_slots_returns: "\<exists>r. find_free_slots env date d hs he = Inr r"
  by (auto simp: find_free_slots_def split: sum.splits)

lemma zonedE:
  assumes z: "zoned parse off b"
  obtains s t i j where "ev_start b = DateTime s" "ev_end b = DateTime t"
    "parse (replace_Z s) = Some (Aware i off)" "parse (replace_Z t) = Some (Aware j off)" "i \<le> j"
proof -
  from z obtain s where s: "ev_start b = DateTime s"
    by (cases "ev_start b") (simp_all add: zoned_def)
  from z s obtain t where t: "ev_end b = DateTime t"
    by (cases "ev_end b") (simp_all add: zoned_def)
  from z s t obtain ds where ds: "parse (replace_Z s) = Some ds"
    by (cases "parse (replace_Z s)") (simp_all add: zoned_def)
  from z s t ds obtain i o1 where i: "ds = Aware i o1"
    by (cases ds) (simp_all add: zoned_def)
  from z s t ds i obtain dt where dt: "parse (replace_Z t) = Some dt"
    by (cases "parse (replace_Z t)") (simp_all add: zoned_def)
  from z s t ds i dt obtain j o2 where j: "dt = Aware j o2"
    by (cases dt) (simp_all add: zoned_def)
  from z s t ds i dt j have "o1 = off" "o2 = off" "i \<le> j"
    by (simp_all add: zoned_def)
  with s t ds i dt j that show thesis by simp
qed

lemma zoned_timed: "zoned parse off b \<Longrightarrow> timed b"
  by (erule zonedE) simp

lemma zoned_keys:
  assumes "zoned parse off b"
  shows "fst (spec_key parse b) = start_key parse b"
  by (simp add: spec_key_def start_key_def)

lemma key_fst: "fst (spec_key parse b) = start_key parse b"
  by (simp add: spec_key_def start_key_def)

lemma listed_zoned:
  assumes "spec_overlap (fromisoformat env) time_min time_max b"
    and "is_aware time_min" and "is_aware time_max"
    and "one_zone (fromisoformat env) off b" and "well_formed env b"
  shows "zoned (fromisoformat env) off b"
  using assms
  by (auto simp: spec_overlap_def one_zone_def well_formed_def zoned_def parse_iso_def dt_gt_def
      split: etime.splits option.splits datetime.splits if_splits)

lemma slots_loop_Cons_step:
  "slots_loop env d (b # bs) cur sl =
     (case slots_loop env d [b] cur sl of
        Inl e \<Rightarrow> Inl e
      | Inr r \<Rightarrow> slots_loop env d bs (fst r) (snd r))"
  by (simp split: etime.splits sum.splits)

lemma slots_loop_append:
  "slots_loop env d (xs @ ys) cur sl =
     (case slots_loop env d xs cur sl of
        Inl e \<Rightarrow> Inl e
      | Inr r \<Rightarrow> slots_loop env d ys (fst r) (snd r))"
proof (induction xs arbitrary: cur sl)
  case Nil
  show ?case by simp
next
  case (Cons x xs)
  show ?case
  proof (cases "slots_loop env d [x] cur sl")
    case (Inl e)
    then show ?thesis
      using slots_loop_Cons_step[of env d x "xs @ ys" cur sl]
        slots_loop_Cons_step[of env d x xs cur sl] by simp
  next
    case (Inr r)
    then show ?thesis
      using slots_loop_Cons_step[of env d x "xs @ ys" cur sl]
        slots_loop_Cons_step[of env d x xs cur sl] Cons.IH[of "fst r" "snd r"] by simp
  qed
qed

lemma slots_loop_zoned_step:
  assumes "ev_start b = DateTime s" "ev_end b = DateTime t"
    "fromisoformat env (replace_Z s) = Some (Aware i off)"
    "fromisoformat env (replace_Z t) = Some (Aware j off)"
    and "is_aware cur"
  shows "slots_loop env d [b] cur sl =
     Inr (if instant cur < j then Aware j off else cur,
          if d * 60000000 \<le> i - instant cur
          then sl @ [mk_slot cur (Aware i off) (i - instant cur)] else sl)"
  using assms by (simp add: parse_iso_def dt_diff_def dt_max_def dt_gt_def)

lemma slots_loop_two_zoned:
  assumes x: "ev_start x = DateTime sx" "ev_end x = DateTime tx"
      "fromisoformat env (replace_Z sx) = Some (Aware i off)"
      "fromisoformat env (replace_Z tx) = Some (Aware jx off)"
    and y: "ev_start y = DateTime sy" "ev_end y = DateTime ty"
      "fromisoformat env (replace_Z sy) = Some (Aware i off)"
      "fromisoformat env (replace_Z ty) = Some (Aware jy off)"
    and le: "i \<le> jx" and d: "0 < d" and cur: "is_aware cur"
  shows "slots_loop env d [x, y] cur sl =
     Inr (if instant (if instant cur < jx then Aware jx off else cur) < jy
          then Aware jy off else (if instant cur < jx then Aware jx off else cur),
          if d * 60000000 \<le> i - instant cur
          then sl @ [mk_slot cur (Aware i off) (i - instant cur)] else sl)"
proof -
  let ?c1 = "if instant cur < jx then Aware jx off else cur"
  let ?s1 = "if d * 60000000 \<le> i - instant cur
          then sl @ [mk_slot cur (Aware i off) (i - instant cur)] else sl"
  have 1: "slots_loop env d [x] cur sl = Inr (?c1, ?s1)"
    by (rule slots_loop_zoned_step[OF x cur])
  have a1: "is_aware ?c1" using cur by simp
  have 2: "slots_loop env d [y] ?c1 ?s1 =
     Inr (if instant ?c1 < jy then Aware jy off else ?c1,
          if d * 60000000 \<le> i - instant ?c1
          then ?s1 @ [mk_slot ?c1 (Aware i off) (i - instant ?c1)] else ?s1)"
    by (rule slots_loop_zoned_step[OF y a1])
  have g: "\<not> d * 60000000 \<le> i - instant ?c1"
  proof -
    have "i \<le> instant ?c1" using le by simp
    moreover have "0 < d * 60000000" using d by simp
    ultimately show ?thesis by linarith
  qed
  have "slots_loop env d [x, y] cur sl = slots_loop env d [y] ?c1 ?s1"
    unfolding slots_loop_Cons_step[of env d x "[y]"] 1 by simp
  also have "\<dots> = Inr (if instant ?c1 < jy then Aware jy off else ?c1, ?s1)"
    unfolding 2 using g by simp
  finally show ?thesis .
qed

lemma later_comm:
  "(if instant (if instant cur < jx then Aware jx off else cur) < jy
    then Aware jy off else (if instant cur < jx then Aware jx off else cur))
   = (if instant (if instant cur < jy then Aware jy off else cur) < jx
      then Aware jx off else (if instant cur < jy then Aware jy off else cur))"
  by auto

lemma slots_loop_swap:
  assumes x: "zoned (fromisoformat env) off x" and y: "zoned (fromisoformat env) off y"
    and same: "start_key (fromisoformat env) x = start_key (fromisoformat env) y"
    and d: "0 < d" and cur: "is_aware cur"
  shows "slots_loop env d (x # y # rest) cur sl = slots_loop env d (y # x # rest) cur sl"
proof -
  from x obtain sx tx ix jx where
    x': "ev_start x = DateTime sx" "ev_end x = DateTime tx"
      "fromisoformat env (replace_Z sx) = Some (Aware ix off)"
      "fromisoformat env (replace_Z tx) = Some (Aware jx off)" and lx: "ix \<le> jx"
    by (rule zonedE)
  from y obtain sy ty iy jy where
    y': "ev_start y = DateTime sy" "ev_end y = DateTime ty"
      "fromisoformat env (replace_Z sy) = Some (Aware iy off)"
      "fromisoformat env (replace_Z ty) = Some (Aware jy off)" and ly: "iy \<le> jy"
    by (rule zonedE)
  have eq: "iy = ix" using same x' y' by (simp add: start_key_def)
  note y'' = y'[unfolded eq] and ly' = ly[unfolded eq]
  have "slots_loop env d [x, y] cur sl = slots_loop env d [y, x] cur sl"
    unfolding slots_loop_two_zoned[OF x' y'' lx d cur] slots_loop_two_zoned[OF y'' x' ly' d cur]
    using later_comm[of cur jx off jy] by simp
  then show ?thesis
    using slots_loop_append[of env d "[x, y]" rest cur sl]
      slots_loop_append[of env d "[y, x]" rest cur sl] by simp
qed

lemma zoned_step_aware:
  assumes "zoned (fromisoformat env) off b" and "is_aware cur"
  shows "\<exists>c s. slots_loop env d [b] cur sl = Inr (c, s) \<and> is_aware c"
proof -
  from assms(1) obtain s t i j where
    b: "ev_start b = DateTime s" "ev_end b = DateTime t"
      "fromisoformat env (replace_Z s) = Some (Aware i off)"
      "fromisoformat env (replace_Z t) = Some (Aware j off)"
    by (rule zonedE)
  show ?thesis
    unfolding slots_loop_zoned_step[OF b assms(2)] using assms(2) by simp
qed

lemma slots_loop_insort:
  assumes x: "zoned (fromisoformat env) off x"
    and M: "\<forall>y\<in>set M. zoned (fromisoformat env) off y"
    and le: "\<forall>y\<in>set M. start_key (fromisoformat env) x \<le> start_key (fromisoformat env) y"
    and d: "0 < d" and cur: "is_aware cur"
  shows "slots_loop env d (x # M) cur sl
       = slots_loop env d (insort_key (spec_key (fromisoformat env)) x M) cur sl"
  using M le cur
proof (induction M arbitrary: cur sl)
  case Nil
  show ?case by simp
next
  case (Cons y ys)
  let ?key = "spec_key (fromisoformat env)"
  show ?case
  proof (cases "?key x \<le> ?key y")
    case True
    then show ?thesis by simp
  next
    case False
    have y: "zoned (fromisoformat env) off y" using Cons.prems(1) by simp
    have "fst (?key y) \<le> fst (?key x)"
      using False by (cases "?key x"; cases "?key y") (auto simp: less_eq_prod_def)
    then have same: "start_key (fromisoformat env) x = start_key (fromisoformat env) y"
      using Cons.prems(2) by (simp add: key_fst)
    from zoned_step_aware[OF y Cons.prems(3), of d sl] obtain c s where
      st: "slots_loop env d [y] cur sl = Inr (c, s)" and c: "is_aware c" by blast
    have "slots_loop env d (x # y # ys) cur sl = slots_loop env d (y # x # ys) cur sl"
      by (rule slots_loop_swap[OF x y same d Cons.prems(3)])
    also have "\<dots> = slots_loop env d (x # ys) c s"
      using slots_loop_Cons_step[of env d y "x # ys" cur sl] st by simp
    also have "\<dots> = slots_loop env d (insort_key ?key x ys) c s"
      using Cons.IH[OF _ _ c] Cons.prems(1,2) by simp
    also have "\<dots> = slots_loop env d (y # insort_key ?key x ys) cur sl"
      using slots_loop_Cons_step[of env d y "insort_key ?key x ys" cur sl] st by simp
    finally show ?thesis using False by simp
  qed
qed

lemma slots_loop_sort:
  assumes N: "\<forall>y\<in>set N. zoned (fromisoformat env) off y"
    and s: "sorted (map (start_key (fromisoformat env)) N)"
    and d: "0 < d" and cur: "is_aware cur"
  shows "slots_loop env d N cur sl
       = slots_loop env d (sort_key (spec_key (fromisoformat env)) N) cur sl"
  using N s cur
proof (induction N arbitrary: cur sl)
  case Nil
  show ?case by simp
next
  case (Cons x N)
  let ?key = "spec_key (fromisoformat env)"
  have x: "zoned (fromisoformat env) off x" using Cons.prems(1) by simp
  have N: "\<forall>y\<in>set N. zoned (fromisoformat env) off y" using Cons.prems(1) by simp
  have le: "\<forall>y\<in>set N. start_key (fromisoformat env) x \<le> start_key (fromisoformat env) y"
    and sN: "sorted (map (start_key (fromisoformat env)) N)"
    using Cons.prems(2) by auto
  from zoned_step_aware[OF x Cons.prems(3), of d sl] obtain c s where
    st: "slots_loop env d [x] cur sl = Inr (c, s)" and c: "is_aware c" by blast
  have "slots_loop env d (x # N) cur sl = slots_loop env d N c s"
    using slots_loop_Cons_step[of env d x N cur sl] st by simp
  also have "\<dots> = slots_loop env d (sort_key ?key N) c s"
    by (rule Cons.IH[OF N sN c])
  also have "\<dots> = slots_loop env d (x # sort_key ?key N) cur sl"
    using slots_loop_Cons_step[of env d x "sort_key ?key N" cur sl] st by simp
  also have "\<dots> = slots_loop env d (insort_key ?key x (sort_key ?key N)) cur sl"
    by (rule slots_loop_insort[OF x _ _ d Cons.prems(3)]) (use N le in simp_all)
  finally show ?case by simp
qed

lemma sort_key_after_start:
  "sort_key (spec_key parse) (sort_key (start_key parse) M) = sort_key (spec_key parse) M"
proof (rule sym, rule properties_for_sort_key)
  let ?N = "sort_key (start_key parse) M"
  show "mset (sort_key (spec_key parse) ?N) = mset M" by simp
  show "sorted (map (spec_key parse) (sort_key (spec_key parse) ?N))" by simp
  fix k
  have "filter (\<lambda>x. spec_key parse k = spec_key parse x) (sort_key (spec_key parse) ?N)
      = filter (\<lambda>x. spec_key parse k = spec_key parse x) ?N"
    using sort_key_stable[of "spec_key parse" "spec_key parse k" ?N] by (simp add: eq_commute)
  also have "\<dots> = filter (\<lambda>x. spec_key parse k = spec_key parse x)
                    (filter (\<lambda>x. start_key parse x = start_key parse k) ?N)"
    by (auto simp: key_fst[symmetric] intro!: filter_cong)
  also have "\<dots> = filter (\<lambda>x. spec_key parse k = spec_key parse x)
                    (filter (\<lambda>x. start_key parse x = start_key parse k) M)"
    by (simp only: sort_key_stable)
  also have "\<dots> = filter (\<lambda>x. spec_key parse k = spec_key parse x) M"
    by (auto simp: key_fst[symmetric] intro!: filter_cong)
  finally show "filter (\<lambda>x. spec_key parse k = spec_key parse x) (sort_key (spec_key parse) ?N)
      = filter (\<lambda>x. spec_key parse k = spec_key parse x) M" .
qed

lemma sorted_start_of_key:
  "sorted (map (spec_key parse) xs) \<Longrightarrow> sorted (map (start_key parse) xs)"
proof (induction xs)
  case Nil
  show ?case by simp
next
  case (Cons x xs)
  have "\<forall>y\<in>set xs. start_key parse x \<le> start_key parse y"
  proof
    fix y assume "y \<in> set xs"
    then have "spec_key parse x \<le> spec_key parse y" using Cons.prems by auto
    then have "fst (spec_key parse x) \<le> fst (spec_key parse y)"
      by (cases "spec_key parse x"; cases "spec_key parse y") (auto simp: less_eq_prod_def)
    then show "start_key parse x \<le> start_key parse y" by (simp add: key_fst)
  qed
  then show ?case using Cons by simp
qed

lemma slots_loop_start_sorted:
  assumes M: "\<forall>y\<in>set M. zoned (fromisoformat env) off y" and d: "0 < d" and cur: "is_aware cur"
  shows "slots_loop env d (sort_key (start_key (fromisoformat env)) M) cur sl
       = slots_loop env d (sort_key (spec_key (fromisoformat env)) M) cur sl"
proof -
  let ?N = "sort_key (start_key (fromisoformat env)) M"
  have "slots_loop env d ?N cur sl
      = slots_loop env d (sort_key (spec_key (fromisoformat env)) ?N) cur sl"
    by (rule slots_loop_sort[OF _ _ d cur]) (use M in simp_all)
  then show ?thesis by (simp only: sort_key_after_start)
qed

lemma filter_overlap_timed:
  "filter (spec_overlap parse a b) (filter timed busy) = filter (spec_overlap parse a b) busy"
  by (induction busy) (auto dest: spec_overlap_timed simp del: timed.simps)

lemma provider_timed_part:
  "filter timed
     (filter (\<lambda>b. \<not> timed b) calendar
      @ sort_key (start_key parse) (filter (spec_overlap parse a b) calendar))
   = sort_key (start_key parse) (filter (spec_overlap parse a b) calendar)"
proof -
  have "filter timed (filter (\<lambda>b. \<not> timed b) calendar) = []"
    by (induction calendar) (simp_all del: timed.simps)
  moreover have "filter timed (sort_key (start_key parse) (filter (spec_overlap parse a b) calendar))
      = sort_key (start_key parse) (filter (spec_overlap parse a b) calendar)"
    by (simp only: filter_sort filter_timed_overlap)
  ultimately show ?thesis by (simp del: timed.simps)
qed

lemma find_free_slots_provider:
  "find_free_slots (provider_env env calendar) date d hs he =
     (case window env date hs he of
        Inl e \<Rightarrow> Inr []
      | Inr w \<Rightarrow>
          (case slots_loop env d
                  (sort_key (start_key (fromisoformat env))
                     (filter (spec_overlap (fromisoformat env) (fst w) (snd w)) calendar))
                  (fst w) [] of
             Inl e \<Rightarrow> Inr []
           | Inr r \<Rightarrow>
               (case trailing_slot d (snd w) (fst r) (snd r) of
                  Inl e \<Rightarrow> Inr []
                | Inr slots \<Rightarrow> Inr slots)))"
proof (cases "window env date hs he")
  case (Inl e)
  then show ?thesis
    by (simp add: find_free_slots_def find_free_slots_try_def provider_env_def)
next
  case (Inr w)
  obtain ws we where w: "w = (ws, we)" by (cases w)
  let ?T = "sort_key (start_key (fromisoformat env))
              (filter (spec_overlap (fromisoformat env) ws we) calendar)"
  have "slots_loop env d (filter (\<lambda>b. \<not> timed b) calendar @ ?T) ws [] = slots_loop env d ?T ws []"
    using slots_loop_all_day[of env d "filter (\<lambda>b. \<not> timed b) calendar @ ?T" ws "[]"]
    by (simp only: provider_timed_part)
  then show ?thesis
    using Inr w
    by (simp add: find_free_slots_def find_free_slots_try_def provider_env_def provider_list_def
          split: sum.splits prod.splits del: timed.simps)
qed

lemma provider_sorted_calendar:
  "sort_key (start_key parse) (filter (spec_overlap parse a b) (spec_sort_busy parse calendar))
   = sort_key (spec_key parse) (filter (spec_overlap parse a b) calendar)"
proof -
  have "filter (spec_overlap parse a b) (spec_sort_busy parse calendar)
      = sort_key (spec_key parse) (filter (spec_overlap parse a b) calendar)"
    by (simp only: spec_sort_busy_def filter_sort filter_overlap_timed)
  moreover have "sorted (map (start_key parse)
      (sort_key (spec_key parse) (filter (spec_overlap parse a b) calendar)))"
    by (rule sorted_start_of_key) simp
  ultimately show ?thesis by (simp only: sort_key_id_if_sorted)
qed

lemma interval_of_zoned:
  assumes "ev_start b = DateTime s" "ev_end b = DateTime t"
    "parse (replace_Z s) = Some (Aware i off)" "parse (replace_Z t) = Some (Aware j off)"
  shows "interval_of parse b = (Aware i off, Aware j off)"
  using assms by (simp add: interval_of_def)

lemma sweep_is_spec_sweep:
  assumes N: "\<forall>y\<in>set N. zoned (fromisoformat env) off y"
    and cur: "is_aware cur" and we: "is_aware we"
  shows "(case slots_loop env d N cur sl of
            Inl e \<Rightarrow> Inr []
          | Inr r \<Rightarrow>
              (case trailing_slot d we (fst r) (snd r) of
                 Inl e \<Rightarrow> Inr []
               | Inr slots \<Rightarrow> Inr slots))
       = (Inr (sl @ spec_sweep d we (map (interval_of (fromisoformat env)) N) cur)
            :: error + slot list)"
  using N cur
proof (induction N arbitrary: cur sl)
  case Nil
  then show ?case using we by (simp add: trailing_slot_aware)
next
  case (Cons x N)
  from Cons.prems(1) have "zoned (fromisoformat env) off x" by simp
  then obtain s t i j where
    x: "ev_start x = DateTime s" "ev_end x = DateTime t"
      "fromisoformat env (replace_Z s) = Some (Aware i off)"
      "fromisoformat env (replace_Z t) = Some (Aware j off)"
    by (rule zonedE)
  let ?c = "if instant cur < j then Aware j off else cur"
  let ?s = "if d * 60000000 \<le> i - instant cur
            then sl @ [mk_slot cur (Aware i off) (i - instant cur)] else sl"
  have st: "slots_loop env d [x] cur sl = Inr (?c, ?s)"
    by (rule slots_loop_zoned_step[OF x Cons.prems(2)])
  have c: "is_aware ?c" using Cons.prems(2) by simp
  have N: "\<forall>y\<in>set N. zoned (fromisoformat env) off y" using Cons.prems(1) by simp
  have "slots_loop env d (x # N) cur sl = slots_loop env d N ?c ?s"
    using slots_loop_Cons_step[of env d x N cur sl] st by simp
  then show ?case
    using Cons.IH[OF N c, of ?s] by (simp add: interval_of_zoned[OF x])
qed

lemma slots_loop_slot_ends:
  "slots_loop env d events cur slots = Inr (cur', slots') \<Longrightarrow>
   \<exists>new. slots' = slots @ new
     \<and> (\<forall>s\<in>set new. \<exists>b\<in>set events. \<exists>t. ev_start b = DateTime t
            \<and> parse_iso env t = Inr (slot_end s))"
proof (induction events arbitrary: cur slots)
  case Nil
  then show ?case by simp
next
  case (Cons x events)
  show ?case
  proof (cases "timed x")
    case False
    have "slots_loop env d events cur slots = Inr (cur', slots')"
      using Cons.prems slots_loop_untimed[OF False] by metis
    from Cons.IH[OF this] show ?thesis by auto
  next
    case True
    let ?sl = "\<lambda>bs. if d * 60000000 \<le> instant bs - instant cur
                 then slots @ [mk_slot cur bs (instant bs - instant cur)] else slots"
    from slots_loop_step[OF Cons.prems True] obtain t bs c where
      st: "ev_start x = DateTime t" "parse_iso env t = Inr bs"
      and step: "slots_loop env d events c (?sl bs) = Inr (cur', slots')"
      by blast
    from Cons.IH[OF step] obtain new where
      n: "slots' = ?sl bs @ new"
      and m: "\<forall>s\<in>set new. \<exists>b\<in>set events. \<exists>t. ev_start b = DateTime t
            \<and> parse_iso env t = Inr (slot_end s)"
      by blast
    show ?thesis
    proof (cases "d * 60000000 \<le> instant bs - instant cur")
      case True
      then have "slots' = slots @ (mk_slot cur bs (instant bs - instant cur) # new)"
        using n by simp
      moreover have "\<forall>s\<in>set (mk_slot cur bs (instant bs - instant cur) # new).
          \<exists>b\<in>set (x # events). \<exists>t. ev_start b = DateTime t \<and> parse_iso env t = Inr (slot_end s)"
        using m st by (auto simp: mk_slot_def)
      ultimately show ?thesis by blast
    next
      case False
      then have "slots' = slots @ new" using n by simp
      moreover have "\<forall>s\<in>set new.
          \<exists>b\<in>set (x # events). \<exists>t. ev_start b = DateTime t \<and> parse_iso env t = Inr (slot_end s)"
        using m by auto
      ultimately show ?thesis by blast
    qed
  qed
qed

lemma find_free_slots_slot_ends:
  assumes w: "window env date hs he = Inr (ws, we)"
    and l: "events_list env ws we = Inr answer"
    and r: "find_free_slots env date d hs he = Inr slots" and s: "s \<in> set slots"
  shows "slot_end s = we
     \<or> (\<exists>b\<in>set answer. \<exists>t. ev_start b = DateTime t \<and> parse_iso env t = Inr (slot_end s))"
proof (cases "slots_loop env d answer ws []")
  case (Inl e)
  then have "find_free_slots env date d hs he = Inr []"
    using w l by (simp add: find_free_slots_def find_free_slots_try_def)
  then show ?thesis using r s by simp
next
  case (Inr p)
  obtain cur sl where p: "p = (cur, sl)" by (cases p)
  from slots_loop_slot_ends[OF Inr[unfolded p]] have
    ends: "\<forall>s\<in>set sl. \<exists>b\<in>set answer. \<exists>t. ev_start b = DateTime t
            \<and> parse_iso env t = Inr (slot_end s)"
    by auto
  have "slots = sl \<or> slots = sl @ [mk_slot cur we (instant we - instant cur)]"
    using find_free_slots_unfold[OF w l Inr[unfolded p]] r by (simp split: if_splits)
  then have "s \<in> set sl \<or> s = mk_slot cur we (instant we - instant cur)"
    using s by auto
  then show ?thesis
  proof
    assume "s \<in> set sl"
    then show ?thesis using ends by blast
  next
    assume "s = mk_slot cur we (instant we - instant cur)"
    then show ?thesis by (simp add: mk_slot_def)
  qed
qed

lemma listed_slot_end_in_window:
  assumes w: "window env date hs he = Inr (ws, we)"
    and l: "events_list env ws we = Inr answer"
    and h: "\<forall>b\<in>set answer. timed b \<longrightarrow> spec_overlap (fromisoformat env) ws we b"
    and r: "find_free_slots env date d hs he = Inr slots" and s: "s \<in> set slots"
  shows "instant (slot_end s) \<le> instant we"
proof -
  from find_free_slots_slot_ends[OF w l r s] show ?thesis
  proof
    assume "slot_end s = we"
    then show ?thesis by simp
  next
    assume "\<exists>b\<in>set answer. \<exists>t. ev_start b = DateTime t \<and> parse_iso env t = Inr (slot_end s)"
    then obtain b t where b: "b \<in> set answer" "ev_start b = DateTime t"
      "parse_iso env t = Inr (slot_end s)" by blast
    then have "spec_overlap (fromisoformat env) ws we b" using h by simp
    then have "instant (slot_end s) < instant we"
      using b(2,3)
      by (auto simp: spec_overlap_def parse_iso_def dt_gt_def
            split: etime.splits option.splits if_splits)
    then show ?thesis by simp
  qed
qed

lemma provider_answer_in_range:
  "events_list (provider_env env calendar) a b = Inr answer \<Longrightarrow>
   \<forall>x\<in>set answer. timed x \<longrightarrow> spec_overlap (fromisoformat env) a b x"
  by (auto simp: provider_env_def provider_list_def simp del: timed.simps)

lemma padding_error:
  "dt_sub_minutes dt n = Inl e \<Longrightarrow> e = OverflowError"
  "dt_add_minutes dt n = Inl e \<Longrightarrow> e = OverflowError"
  by (auto simp: dt_sub_minutes_def dt_add_minutes_def dt_plus_def timedelta_minutes_def
        split: if_splits)

section \<open>The claims\<close>

text \<open>
  C1. Behind a provider that honours the query, \<open>find_free_slots\<close> returns what the
  specification's Free-Slot Finder returns on the busy intervals the provider lists for
  the window: all-day entries excluded, the others sorted by start time and then by end
  time, then the cursor sweep. The busy list may be unordered and may hold overlapping and
  all-day entries; the output on it is the output on the sorted list. The sort by start
  time is the provider's, asked for by \<open>orderBy='startTime'\<close>; the order of entries with one
  start time does not change the output. This is for a positive minimum duration, busy
  intervals that do not end before they start, and timestamps written in one time zone.
\<close>

theorem find_free_slots_as_on_sorted_list:
  assumes d: "0 < d"
    and ok: "\<forall>b\<in>set busy. well_formed env b \<and> one_zone (fromisoformat env) off b"
  shows "(\<forall>ws we. window env date hs he = Inr (ws, we) \<longrightarrow>
            find_free_slots (provider_env env busy) date d hs he
              = Inr (spec_find_free_slots (fromisoformat env) d ws we
                       (filter (spec_overlap (fromisoformat env) ws we) busy)))
         \<and> find_free_slots (provider_env env busy) date d hs he
             = find_free_slots (provider_env env (spec_sort_busy (fromisoformat env) busy))
                 date d hs he"
proof -
  let ?parse = "fromisoformat env"
  have sorted_eq: "find_free_slots (provider_env env busy) date d hs he
       = find_free_slots (provider_env env (spec_sort_busy ?parse busy)) date d hs he
       \<and> (\<forall>ws we. window env date hs he = Inr (ws, we) \<longrightarrow>
            find_free_slots (provider_env env busy) date d hs he
              = Inr (spec_find_free_slots ?parse d ws we (filter (spec_overlap ?parse ws we) busy)))"
  proof (cases "window env date hs he")
    case (Inl e)
    then show ?thesis by (simp only: find_free_slots_provider sum.case) simp
  next
    case (Inr w)
    obtain ws we where w: "w = (ws, we)" by (cases w)
    have aw: "is_aware ws" "is_aware we"
      using window_aware[of env date hs he ws we] Inr w by simp_all
    let ?M = "filter (spec_overlap ?parse ws we) busy"
    have M: "\<forall>y\<in>set ?M. zoned ?parse off y"
      using ok aw by (auto intro: listed_zoned)
    have Ms: "\<forall>y\<in>set (sort_key (spec_key ?parse) ?M). zoned ?parse off y"
      using M by simp
    have eq: "slots_loop env d (sort_key (start_key ?parse) ?M) ws []
        = slots_loop env d (sort_key (spec_key ?parse) ?M) ws []"
      by (rule slots_loop_start_sorted[OF M d aw(1)])
    have a: "find_free_slots (provider_env env busy) date d hs he
       = find_free_slots (provider_env env (spec_sort_busy ?parse busy)) date d hs he"
      unfolding find_free_slots_provider Inr w using eq
      by (simp only: sum.case fst_conv snd_conv provider_sorted_calendar)
    have srt: "spec_sort_busy ?parse ?M = sort_key (spec_key ?parse) ?M"
      unfolding spec_sort_busy_def using filter_timed_overlap[of ?parse ws we busy] by simp
    have b: "find_free_slots (provider_env env busy) date d hs he
       = Inr (spec_find_free_slots ?parse d ws we ?M)"
      unfolding find_free_slots_provider Inr w spec_find_free_slots_def srt
      using sweep_is_spec_sweep[OF Ms aw, of d "[]"] eq
      by (simp only: sum.case fst_conv snd_conv append_Nil)
    show ?thesis using a b Inr w by simp
  qed
  then show ?thesis by blast
qed

text \<open>
  C1 on an unordered calendar with an all-day entry: the provider lists 10:00 to 11:00
  before 14:00 to 15:00, and the slots are those of the sorted list.
\<close>

theorem find_free_slots_as_on_sorted_list_witness:
  "find_free_slots
     (ranged_env [timed_event ''e2'' ''2024-01-15T14:00:00+05:30'' ''2024-01-15T15:00:00+05:30'',
                  all_day_event ''d1'' ''2024-01-15'' ''2024-01-16'',
                  timed_event ''e1'' ''2024-01-15T10:00:00+05:30'' ''2024-01-15T11:00:00+05:30''])
     ''2024-01-15'' 30 9 18
   = Inr [\<lparr>slot_start = ist 9 0, slot_end = ist 10 0, duration_minutes = 60\<rparr>,
          \<lparr>slot_start = ist 11 0, slot_end = ist 14 0, duration_minutes = 180\<rparr>,
          \<lparr>slot_start = ist 15 0, slot_end = ist 18 0, duration_minutes = 180\<rparr>]
   \<and> spec_find_free_slots day_iso 30 (ist 9 0) (ist 18 0)
       (filter (spec_overlap day_iso (ist 9 0) (ist 18 0))
          [timed_event ''e2'' ''2024-01-15T14:00:00+05:30'' ''2024-01-15T15:00:00+05:30'',
           all_day_event ''d1'' ''2024-01-15'' ''2024-01-16'',
           timed_event ''e1'' ''2024-01-15T10:00:00+05:30'' ''2024-01-15T11:00:00+05:30''])
     = [\<lparr>slot_start = ist 9 0, slot_end = ist 10 0, duration_minutes = 60\<rparr>,
        \<lparr>slot_start = ist 11 0, slot_end = ist 14 0, duration_minutes = 180\<rparr>,
        \<lparr>slot_start = ist 15 0, slot_end = ist 18 0, duration_minutes = 180\<rparr>]
   \<and> spec_sort_busy day_iso
       [timed_event ''e2'' ''2024-01-15T14:00:00+05:30'' ''2024-01-15T15:00:00+05:30'',
        all_day_event ''d1'' ''2024-01-15'' ''2024-01-16'',
        timed_event ''e1'' ''2024-01-15T10:00:00+05:30'' ''2024-01-15T11:00:00+05:30'']
     = [timed_event ''e1'' ''2024-01-15T10:00:00+05:30'' ''2024-01-15T11:00:00+05:30'',
        timed_event ''e2'' ''2024-01-15T14:00:00+05:30'' ''2024-01-15T15:00:00+05:30'']
   \<and> find_free_slots
       (ranged_env [timed_event ''e1'' ''2024-01-15T10:00:00+05:30'' ''2024-01-15T11:00:00+05:30'',
                    timed_event ''e2'' ''2024-01-15T14:00:00+05:30'' ''2024-01-15T15:00:00+05:30''])
       ''2024-01-15'' 30 9 18
     = Inr [\<lparr>slot_start = ist 9 0, slot_end = ist 10 0, duration_minutes = 60\<rparr>,
            \<lparr>slot_start = ist 11 0, slot_end = ist 14 0, duration_minutes = 180\<rparr>,
            \<lparr>slot_start = ist 15 0, slot_end = ist 18 0, duration_minutes = 180\<rparr>]"
proof -
  let ?busy = "[timed_event ''e2'' ''2024-01-15T14:00:00+05:30'' ''2024-01-15T15:00:00+05:30'',
                all_day_event ''d1'' ''2024-01-15'' ''2024-01-16'',
                timed_event ''e1'' ''2024-01-15T10:00:00+05:30'' ''2024-01-15T11:00:00+05:30'']"
  let ?slots = "[\<lparr>slot_start = ist 9 0, slot_end = ist 10 0, duration_minutes = 60\<rparr>,
          \<lparr>slot_start = ist 11 0, slot_end = ist 14 0, duration_minutes = 180\<rparr>,
          \<lparr>slot_start = ist 15 0, slot_end = ist 18 0, duration_minutes = 180\<rparr>]"
  have d: "(0::int) < 30" by simp
  have ok: "\<forall>b\<in>set ?busy. well_formed (day_env []) b \<and> one_zone (fromisoformat (day_env [])) 330 b"
    by (simp add: well_formed_def one_zone_def day_env_def timed_event_def all_day_event_def
          parse_iso_def replace_Z_def day_iso_def ist_def)
  have w: "window (day_env []) ''2024-01-15'' 9 18 = Inr (ist 9 0, ist 18 0)"
    by (simp add: run_simps)
  have p: "fromisoformat (day_env []) = day_iso" by (simp add: day_env_def)
  have s: "spec_sort_busy day_iso ?busy
     = [timed_event ''e1'' ''2024-01-15T10:00:00+05:30'' ''2024-01-15T11:00:00+05:30'',
        timed_event ''e2'' ''2024-01-15T14:00:00+05:30'' ''2024-01-15T15:00:00+05:30'']"
    by (simp add: sort_simps timed_event_def all_day_event_def replace_Z_def day_iso_def ist_def)
  have run: "find_free_slots (ranged_env ?busy) ''2024-01-15'' 30 9 18 = Inr ?slots"
    by (simp add: run_simps)
  from find_free_slots_as_on_sorted_list[OF d ok, of "''2024-01-15''" 9 18] w
  have both: "find_free_slots (provider_env (day_env []) ?busy) ''2024-01-15'' 30 9 18
          = Inr (spec_find_free_slots day_iso 30 (ist 9 0) (ist 18 0)
                   (filter (spec_overlap day_iso (ist 9 0) (ist 18 0)) ?busy))
        \<and> find_free_slots (provider_env (day_env []) ?busy) ''2024-01-15'' 30 9 18
          = find_free_slots (provider_env (day_env []) (spec_sort_busy day_iso ?busy))
              ''2024-01-15'' 30 9 18"
    unfolding p by blast
  have run': "find_free_slots (provider_env (day_env []) ?busy) ''2024-01-15'' 30 9 18 = Inr ?slots"
    using run by (simp only: ranged_env_def)
  have a: "spec_find_free_slots day_iso 30 (ist 9 0) (ist 18 0)
             (filter (spec_overlap day_iso (ist 9 0) (ist 18 0)) ?busy) = ?slots"
    using both[THEN conjunct1] run' by simp
  have b: "find_free_slots
       (ranged_env [timed_event ''e1'' ''2024-01-15T10:00:00+05:30'' ''2024-01-15T11:00:00+05:30'',
                    timed_event ''e2'' ''2024-01-15T14:00:00+05:30'' ''2024-01-15T15:00:00+05:30''])
       ''2024-01-15'' 30 9 18 = Inr ?slots"
    using both[THEN conjunct2] run' by (simp add: s ranged_env_def)
  show ?thesis using run a s b by simp
qed

text \<open>
  C2, as amended. Neither method raises: each catches every exception of its body. When
  the start or the end timestamp does not parse, \<open>check_conflicts\<close> returns \<open>False\<close> with
  the one-element list holding the error entry; when the date or a timed busy interval's
  timestamp does not parse, \<open>find_free_slots\<close> returns the empty list. An interval with
  \<open>start \<ge> end\<close> is not looked for: \<open>check_conflicts\<close> queries the provider and reports
  the timed entries of its answer as for any other candidate.
\<close>

theorem malformed_input_is_caught:
  "(\<exists>r. check_conflicts env start_time end_time buffer_minutes = Inr r)
   \<and> (\<exists>r. find_free_slots env date d hs he = Inr r)
   \<and> (parse_iso env start_time = Inl ValueError \<or> parse_iso env end_time = Inl ValueError \<longrightarrow>
        check_conflicts env start_time end_time (Some buffer)
          = Inr (False, [ErrorEntry ''Unexpected error: '' ValueError]))
   \<and> (strptime_ymd env date = None \<longrightarrow> find_free_slots env date d hs he = Inr [])
   \<and> (\<forall>ws we events. window env date hs he = Inr (ws, we) \<longrightarrow>
         events_list env ws we = Inr events \<longrightarrow> (\<exists>b\<in>set events. unreadable env b) \<longrightarrow>
         find_free_slots env date d hs he = Inr [])
   \<and> (\<forall>start_dt end_dt padded_start padded_end events conflicts.
         parse_iso env start_time = Inr start_dt \<longrightarrow> parse_iso env end_time = Inr end_dt \<longrightarrow>
         instant end_dt \<le> instant start_dt \<longrightarrow>
         dt_sub_minutes start_dt buffer = Inr padded_start \<longrightarrow>
         dt_add_minutes end_dt buffer = Inr padded_end \<longrightarrow>
         events_list env padded_start padded_end = Inr events \<longrightarrow>
         conflicts_loop events [] = Inr conflicts \<longrightarrow>
         check_conflicts env start_time end_time (Some buffer) = Inr (conflicts \<noteq> [], conflicts))"
proof -
  have 3: "parse_iso env start_time = Inl ValueError \<or> parse_iso env end_time = Inl ValueError \<longrightarrow>
        check_conflicts env start_time end_time (Some buffer)
          = Inr (False, [ErrorEntry ''Unexpected error: '' ValueError])"
    by (auto simp: check_conflicts_def check_conflicts_try_def parse_iso_def
          split: sum.splits option.splits)
  have 4: "strptime_ymd env date = None \<longrightarrow> find_free_slots env date d hs he = Inr []"
    by (simp add: find_free_slots_def find_free_slots_try_def window_def)
  have 5: "\<forall>ws we events. window env date hs he = Inr (ws, we) \<longrightarrow>
         events_list env ws we = Inr events \<longrightarrow> (\<exists>b\<in>set events. unreadable env b) \<longrightarrow>
         find_free_slots env date d hs he = Inr []"
    using find_free_slots_unreadable by blast
  have 6: "\<forall>start_dt end_dt padded_start padded_end events conflicts.
         parse_iso env start_time = Inr start_dt \<longrightarrow> parse_iso env end_time = Inr end_dt \<longrightarrow>
         instant end_dt \<le> instant start_dt \<longrightarrow>
         dt_sub_minutes start_dt buffer = Inr padded_start \<longrightarrow>
         dt_add_minutes end_dt buffer = Inr padded_end \<longrightarrow>
         events_list env padded_start padded_end = Inr events \<longrightarrow>
         conflicts_loop events [] = Inr conflicts \<longrightarrow>
         check_conflicts env start_time end_time (Some buffer) = Inr (conflicts \<noteq> [], conflicts)"
    using check_conflicts_listing by blast
  show ?thesis
    using check_conflicts_returns find_free_slots_returns 3 4 5 6 by blast
qed

text \<open>
  C2 on a start timestamp, a date and a busy timestamp that do not parse, and on the
  candidate 15:00 to 14:00.
\<close>

theorem malformed_input_is_caught_witness:
  "check_conflicts (day_env []) ''tomorrow at nine'' ''2024-01-15T15:00:00+05:30'' (Some 15)
     = Inr (False, [ErrorEntry ''Unexpected error: '' ValueError])
   \<and> find_free_slots (day_env []) ''15/01/2024'' 30 9 18 = Inr []
   \<and> find_free_slots
       (day_env [timed_event ''e1'' ''ten in the morning'' ''2024-01-15T11:00:00+05:30''])
       ''2024-01-15'' 30 9 18 = Inr []
   \<and> check_conflicts
       (day_env [timed_event ''e1'' ''ten in the morning'' ''2024-01-15T11:00:00+05:30''])
       ''2024-01-15T15:00:00+05:30'' ''2024-01-15T14:00:00+05:30'' (Some 15)
     = Inr (True, [Conflict ''Busy'' ''ten in the morning'' ''2024-01-15T11:00:00+05:30'' ''e1''])"
proof -
  let ?evs = "[timed_event ''e1'' ''ten in the morning'' ''2024-01-15T11:00:00+05:30'']"
  have p: "parse_iso (day_env []) ''tomorrow at nine'' = Inl ValueError"
    by (simp add: parse_iso_def day_env_def replace_Z_def day_iso_def)
  have q: "strptime_ymd (day_env []) ''15/01/2024'' = None"
    by (simp add: day_env_def)
  from malformed_input_is_caught[where env = "day_env []" and start_time = "''tomorrow at nine''"
      and end_time = "''2024-01-15T15:00:00+05:30''" and buffer = 15
      and date = "''15/01/2024''" and d = 30 and hs = 9 and he = 18]
  have a: "check_conflicts (day_env []) ''tomorrow at nine'' ''2024-01-15T15:00:00+05:30'' (Some 15)
     = Inr (False, [ErrorEntry ''Unexpected error: '' ValueError])
   \<and> find_free_slots (day_env []) ''15/01/2024'' 30 9 18 = Inr []"
    using p q by blast
  have w: "window (day_env ?evs) ''2024-01-15'' 9 18 = Inr (ist 9 0, ist 18 0)"
    by (simp add: run_simps)
  have l: "events_list (day_env ?evs) (ist 9 0) (ist 18 0) = Inr ?evs"
    by (simp add: day_env_def)
  have u: "\<exists>b\<in>set ?evs. unreadable (day_env ?evs) b"
    by (simp add: unreadable_def timed_event_def parse_iso_def day_env_def replace_Z_def day_iso_def)
  have s: "parse_iso (day_env ?evs) ''2024-01-15T15:00:00+05:30'' = Inr (ist 15 0)"
    by (simp add: parse_iso_def day_env_def replace_Z_def day_iso_def)
  have e: "parse_iso (day_env ?evs) ''2024-01-15T14:00:00+05:30'' = Inr (ist 14 0)"
    by (simp add: parse_iso_def day_env_def replace_Z_def day_iso_def)
  have o: "instant (ist 14 0) \<le> instant (ist 15 0)" by (simp add: ist_def)
  have pad: "dt_sub_minutes (ist 15 0) 15 = Inr (ist 14 45)"
    "dt_add_minutes (ist 14 0) 15 = Inr (ist 14 15)"
    by (simp_all add: run_simps)
  have l2: "events_list (day_env ?evs) (ist 14 45) (ist 14 15) = Inr ?evs"
    by (simp add: day_env_def)
  have c: "conflicts_loop ?evs []
     = Inr [Conflict ''Busy'' ''ten in the morning'' ''2024-01-15T11:00:00+05:30'' ''e1'']"
    by (simp add: timed_event_def conflict_of_def)
  from malformed_input_is_caught[where env = "day_env ?evs"
      and start_time = "''2024-01-15T15:00:00+05:30''"
      and end_time = "''2024-01-15T14:00:00+05:30''" and buffer = 15
      and date = "''2024-01-15''" and d = 30 and hs = 9 and he = 18]
  have b: "find_free_slots (day_env ?evs) ''2024-01-15'' 30 9 18 = Inr []
   \<and> check_conflicts (day_env ?evs)
       ''2024-01-15T15:00:00+05:30'' ''2024-01-15T14:00:00+05:30'' (Some 15)
     = Inr ([Conflict ''Busy'' ''ten in the morning'' ''2024-01-15T11:00:00+05:30'' ''e1''] \<noteq> [],
            [Conflict ''Busy'' ''ten in the morning'' ''2024-01-15T11:00:00+05:30'' ''e1''])"
    using w l u s e o pad l2 c by blast
  show ?thesis using a b by simp
qed

text \<open>
  C2 as stated fails: no error reaches the caller. An unreadable start timestamp gives
  \<open>(False, [error entry])\<close>, a candidate 15:00 to 14:00 gives \<open>(False, [])\<close>, an unreadable
  busy timestamp gives no slots, and a busy interval 11:00 to 10:00 is swept as it stands.
\<close>

theorem malformed_input_returns_normally:
  "check_conflicts (day_env []) ''not a timestamp'' ''2024-01-15T15:00:00+05:30'' (Some 15)
     = Inr (False, [ErrorEntry ''Unexpected error: '' ValueError])
   \<and> check_conflicts (day_env []) ''2024-01-15T15:00:00+05:30'' ''2024-01-15T14:00:00+05:30'' (Some 15)
     = Inr (False, [])
   \<and> find_free_slots
       (day_env [timed_event ''e1'' ''ten in the morning'' ''2024-01-15T11:00:00+05:30''])
       ''2024-01-15'' 30 9 18 = Inr []
   \<and> find_free_slots
       (day_env [timed_event ''e1'' ''2024-01-15T11:00:00+05:30'' ''2024-01-15T10:00:00+05:30''])
       ''2024-01-15'' 30 9 18
     = Inr [\<lparr>slot_start = ist 9 0, slot_end = ist 11 0, duration_minutes = 120\<rparr>,
            \<lparr>slot_start = ist 10 0, slot_end = ist 18 0, duration_minutes = 480\<rparr>]"
  by (simp add: run_simps)

text \<open>
  C3. Behind a provider that honours the query: for every candidate, every buffer whose
  padding stays in the range of \<open>datetime\<close>, and every busy list, \<open>check_conflicts\<close>
  reports a busy interval \<open>b\<close> as a conflict if and only if \<open>b.start < candidate.end + buffer\<close>
  and \<open>b.end > candidate.start - buffer\<close>. The padded candidate goes to the provider as
  \<open>timeMin\<close> and \<open>timeMax\<close>, and every timed entry of the answer is reported. When no busy
  interval overlaps the padded candidate the result is \<open>(False, [])\<close>. All-day entries are
  never conflicts: the provider lists those of the calendar and the loop skips them.
\<close>

theorem check_conflicts_overlap_iff:
  assumes s: "parse_iso env start_time = Inr start_dt"
    and e: "parse_iso env end_time = Inr end_dt"
    and ps: "dt_sub_minutes start_dt buffer = Inr padded_start"
    and pe: "dt_add_minutes end_dt buffer = Inr padded_end"
  shows "instant padded_start = instant start_dt - buffer * 60000000
     \<and> instant padded_end = instant end_dt + buffer * 60000000
     \<and> check_conflicts (provider_env env busy) start_time end_time (Some buffer)
         = Inr (\<exists>b\<in>set busy. spec_overlap (fromisoformat env) padded_start padded_end b,
                map conflict_of
                  (sort_key (start_key (fromisoformat env))
                     (filter (spec_overlap (fromisoformat env) padded_start padded_end) busy)))
     \<and> (\<forall>b\<in>set busy.
           b \<in> set (sort_key (start_key (fromisoformat env))
                      (filter (spec_overlap (fromisoformat env) padded_start padded_end) busy))
           \<longleftrightarrow> spec_overlap (fromisoformat env) padded_start padded_end b)
     \<and> ((\<forall>b\<in>set busy. \<not> spec_overlap (fromisoformat env) padded_start padded_end b) \<longrightarrow>
           check_conflicts (provider_env env busy) start_time end_time (Some buffer)
             = Inr (False, []))
     \<and> (\<forall>b\<in>set busy. \<not> timed b \<longrightarrow>
           \<not> spec_overlap (fromisoformat env) padded_start padded_end b)"
proof -
  let ?ov = "spec_overlap (fromisoformat env) padded_start padded_end"
  let ?listed = "sort_key (start_key (fromisoformat env)) (filter ?ov busy)"
  let ?answer = "filter (\<lambda>b. \<not> timed b) busy @ ?listed"
  have i1: "instant padded_start = instant start_dt - buffer * 60000000"
    using ps by (cases start_dt)
      (auto simp: dt_sub_minutes_def dt_plus_def timedelta_minutes_def split: if_splits)
  have i2: "instant padded_end = instant end_dt + buffer * 60000000"
    using pe by (cases end_dt)
      (auto simp: dt_add_minutes_def dt_plus_def timedelta_minutes_def split: if_splits)
  have l: "events_list (provider_env env busy) padded_start padded_end = Inr ?answer"
    by (simp add: provider_env_def provider_list_def)
  have t: "\<forall>b\<in>set ?answer. timed b \<longrightarrow> (\<exists>t. ev_end b = DateTime t)"
    using spec_overlap_timed by (auto simp del: timed.simps)
  have c: "conflicts_loop ?answer [] = Inr (map conflict_of ?listed)"
    using conflicts_loop_timed[OF t, of "[]"] by (simp only: provider_timed_part append_Nil)
  have s': "parse_iso (provider_env env busy) start_time = Inr start_dt"
    and e': "parse_iso (provider_env env busy) end_time = Inr end_dt"
    using s e by (simp_all add: provider_env_def)
  have "set ?listed = {b \<in> set busy. ?ov b}" by simp
  then have ne: "(?listed \<noteq> []) = (\<exists>b\<in>set busy. ?ov b)"
    using set_empty[of ?listed] by (auto simp del: set_empty set_sort)
  have main: "check_conflicts (provider_env env busy) start_time end_time (Some buffer)
         = Inr (\<exists>b\<in>set busy. ?ov b, map conflict_of ?listed)"
    using check_conflicts_listing[OF s' e' ps pe l c] ne by simp
  have none: "(\<forall>b\<in>set busy. \<not> ?ov b) \<longrightarrow>
      check_conflicts (provider_env env busy) start_time end_time (Some buffer) = Inr (False, [])"
    unfolding main by (simp add: filter_False)
  have mem: "\<forall>b\<in>set busy. b \<in> set ?listed \<longleftrightarrow> ?ov b" by simp
  have allday: "\<forall>b\<in>set busy. \<not> timed b \<longrightarrow> \<not> ?ov b"
    using spec_overlap_timed by blast
  show ?thesis using i1 i2 main mem none allday by blast
qed

text \<open>
  C3 for candidate 14:00 to 15:00 with buffer 15, on a calendar with an all-day entry, the
  busy interval 10:00 to 11:00 and the busy interval 15:10 to 16:00, and on the same
  calendar without the last one.
\<close>

theorem check_conflicts_overlap_iff_witness:
  "check_conflicts
     (ranged_env [all_day_event ''d1'' ''2024-01-15'' ''2024-01-16'',
                  timed_event ''e0'' ''2024-01-15T10:00:00+05:30'' ''2024-01-15T11:00:00+05:30'',
                  timed_event ''e1'' ''2024-01-15T15:10:00+05:30'' ''2024-01-15T16:00:00+05:30''])
     ''2024-01-15T14:00:00+05:30'' ''2024-01-15T15:00:00+05:30'' (Some 15)
   = Inr (True, [Conflict ''Busy'' ''2024-01-15T15:10:00+05:30'' ''2024-01-15T16:00:00+05:30'' ''e1''])
   \<and> spec_overlap day_iso (ist 13 45) (ist 15 15)
       (timed_event ''e1'' ''2024-01-15T15:10:00+05:30'' ''2024-01-15T16:00:00+05:30'')
   \<and> \<not> spec_overlap day_iso (ist 13 45) (ist 15 15)
       (timed_event ''e0'' ''2024-01-15T10:00:00+05:30'' ''2024-01-15T11:00:00+05:30'')
   \<and> check_conflicts
       (ranged_env [all_day_event ''d1'' ''2024-01-15'' ''2024-01-16'',
                    timed_event ''e0'' ''2024-01-15T10:00:00+05:30'' ''2024-01-15T11:00:00+05:30''])
       ''2024-01-15T14:00:00+05:30'' ''2024-01-15T15:00:00+05:30'' (Some 15)
     = Inr (False, [])"
proof -
  let ?d1 = "all_day_event ''d1'' ''2024-01-15'' ''2024-01-16''"
  let ?e0 = "timed_event ''e0'' ''2024-01-15T10:00:00+05:30'' ''2024-01-15T11:00:00+05:30''"
  let ?e1 = "timed_event ''e1'' ''2024-01-15T15:10:00+05:30'' ''2024-01-15T16:00:00+05:30''"
  have p: "fromisoformat (day_env []) = day_iso" by (simp add: day_env_def)
  have s: "parse_iso (day_env []) ''2024-01-15T14:00:00+05:30'' = Inr (ist 14 0)"
    by (simp add: parse_iso_def day_env_def replace_Z_def day_iso_def)
  have e: "parse_iso (day_env []) ''2024-01-15T15:00:00+05:30'' = Inr (ist 15 0)"
    by (simp add: parse_iso_def day_env_def replace_Z_def day_iso_def)
  have ps: "dt_sub_minutes (ist 14 0) 15 = Inr (ist 13 45)"
    by (simp add: run_simps)
  have pe: "dt_add_minutes (ist 15 0) 15 = Inr (ist 15 15)"
    by (simp add: run_simps)
  have o1: "spec_overlap day_iso (ist 13 45) (ist 15 15) ?e1"
    by (simp add: run_simps)
  have o0: "\<not> spec_overlap day_iso (ist 13 45) (ist 15 15) ?e0"
    by (simp add: run_simps)
  have od: "\<not> spec_overlap day_iso (ist 13 45) (ist 15 15) ?d1"
    by (simp add: run_simps)
  have f: "filter (spec_overlap day_iso (ist 13 45) (ist 15 15)) [?d1, ?e0, ?e1] = [?e1]"
    using o1 o0 od by simp
  from check_conflicts_overlap_iff[OF s e ps pe, of "[?d1, ?e0, ?e1]"]
  have "check_conflicts (provider_env (day_env []) [?d1, ?e0, ?e1])
          ''2024-01-15T14:00:00+05:30'' ''2024-01-15T15:00:00+05:30'' (Some 15)
        = Inr (\<exists>b\<in>set [?d1, ?e0, ?e1]. spec_overlap day_iso (ist 13 45) (ist 15 15) b,
               map conflict_of (sort_key (start_key day_iso)
                 (filter (spec_overlap day_iso (ist 13 45) (ist 15 15)) [?d1, ?e0, ?e1])))"
    unfolding p by blast
  then have a: "check_conflicts (ranged_env [?d1, ?e0, ?e1])
          ''2024-01-15T14:00:00+05:30'' ''2024-01-15T15:00:00+05:30'' (Some 15)
        = Inr (True, [Conflict ''Busy'' ''2024-01-15T15:10:00+05:30'' ''2024-01-15T16:00:00+05:30'' ''e1''])"
    unfolding f ranged_env_def using o1 by (simp add: conflict_of_def timed_event_def)
  have no: "\<forall>b\<in>set [?d1, ?e0]. \<not> spec_overlap day_iso (ist 13 45) (ist 15 15) b"
    using o0 od by simp
  from check_conflicts_overlap_iff[OF s e ps pe, of "[?d1, ?e0]"] no
  have b: "check_conflicts (ranged_env [?d1, ?e0])
          ''2024-01-15T14:00:00+05:30'' ''2024-01-15T15:00:00+05:30'' (Some 15) = Inr (False, [])"
    unfolding p ranged_env_def by blast
  show ?thesis using a o1 o0 b by simp
qed

text \<open>
  C4. For every window, every positive minimum duration and every busy list, whose
  intervals by the data model do not end before they start, \<open>find_free_slots\<close> returns
  slots that are each at least the minimum long, none overlapping a later one, in
  chronological order. With no timed busy interval and a window at least the minimum long
  the result is the one slot spanning the window. The empty list is a possible result: a
  busy interval equal to the window gives it.
\<close>

theorem free_slots_long_enough_and_chronological:
  assumes d: "0 < duration"
    and wf: "\<forall>ws we events. window env date hs he = Inr (ws, we) \<longrightarrow>
               events_list env ws we = Inr events \<longrightarrow> (\<forall>b\<in>set events. well_formed env b)"
  shows "\<exists>slots. find_free_slots env date duration hs he = Inr slots
     \<and> (\<forall>s\<in>set slots. long_enough duration s \<and> instant (slot_start s) < instant (slot_end s))
     \<and> chronological slots
     \<and> (\<forall>ws we events. window env date hs he = Inr (ws, we) \<longrightarrow>
          events_list env ws we = Inr events \<longrightarrow> filter timed events = [] \<longrightarrow>
          duration * 60000000 \<le> instant we - instant ws \<longrightarrow>
          slots = [mk_slot ws we (instant we - instant ws)])
     \<and> find_free_slots
         (day_env [timed_event ''e1'' ''2024-01-15T09:00:00+05:30'' ''2024-01-15T18:00:00+05:30''])
         ''2024-01-15'' duration 9 18 = Inr []"
proof -
  have full: "find_free_slots
         (day_env [timed_event ''e1'' ''2024-01-15T09:00:00+05:30'' ''2024-01-15T18:00:00+05:30''])
         ''2024-01-15'' duration 9 18 = Inr []"
    using d by (simp add: run_simps)
  from find_free_slots_cases[of env date duration hs he]
  show ?thesis
  proof
    assume e: "find_free_slots env date duration hs he = Inr []"
    have "\<forall>ws we events. window env date hs he = Inr (ws, we) \<longrightarrow>
          events_list env ws we = Inr events \<longrightarrow> filter timed events = [] \<longrightarrow>
          duration * 60000000 \<le> instant we - instant ws \<longrightarrow>
          [] = [mk_slot ws we (instant we - instant ws)]"
      using e no_timed_whole_window[of env date hs he _ _ _ duration] by fastforce
    with e full show ?thesis by (simp add: chronological_def)
  next
    assume "\<exists>ws we events cur slots. window env date hs he = Inr (ws, we)
        \<and> events_list env ws we = Inr events
        \<and> slots_loop env duration events ws [] = Inr (cur, slots)"
    then obtain ws we events cur slots where
      w: "window env date hs he = Inr (ws, we)" and l: "events_list env ws we = Inr events"
      and r: "slots_loop env duration events ws [] = Inr (cur, slots)"
      by blast
    from find_free_slots_unfold[OF w l r] obtain result where
      res: "find_free_slots env date duration hs he = Inr result" by blast
    have wfe: "\<forall>b\<in>set events. well_formed env b" using wf w l by blast
    from slots_ok_result[OF d w l r wfe res] have
      ok: "\<forall>s\<in>set result. long_enough duration s" "chronological result" by simp_all
    have pos: "\<forall>s\<in>set result. instant (slot_start s) < instant (slot_end s)"
      using ok(1) long_enough_positive[OF d] by blast
    have whole: "\<forall>ws we events. window env date hs he = Inr (ws, we) \<longrightarrow>
          events_list env ws we = Inr events \<longrightarrow> filter timed events = [] \<longrightarrow>
          duration * 60000000 \<le> instant we - instant ws \<longrightarrow>
          result = [mk_slot ws we (instant we - instant ws)]"
      using res no_timed_whole_window[of env date hs he _ _ _ duration] by fastforce
    show ?thesis using res ok pos whole full by blast
  qed
qed

text \<open>
  C4 on a listing with one all-day entry and the busy interval 10:00 to 11:00, and on a
  listing with the all-day entry alone.
\<close>

theorem free_slots_long_enough_and_chronological_witness:
  "find_free_slots
     (day_env [all_day_event ''d1'' ''2024-01-15'' ''2024-01-16'',
               timed_event ''e1'' ''2024-01-15T10:00:00+05:30'' ''2024-01-15T11:00:00+05:30''])
     ''2024-01-15'' 30 9 18
   = Inr [mk_slot (ist 9 0) (ist 10 0) 3600000000, mk_slot (ist 11 0) (ist 18 0) 25200000000]
   \<and> long_enough 30 (mk_slot (ist 9 0) (ist 10 0) 3600000000)
   \<and> long_enough 30 (mk_slot (ist 11 0) (ist 18 0) 25200000000)
   \<and> chronological [mk_slot (ist 9 0) (ist 10 0) 3600000000, mk_slot (ist 11 0) (ist 18 0) 25200000000]
   \<and> find_free_slots (day_env [all_day_event ''d1'' ''2024-01-15'' ''2024-01-16''])
       ''2024-01-15'' 30 9 18
     = Inr [\<lparr>slot_start = ist 9 0, slot_end = ist 18 0, duration_minutes = 540\<rparr>]"
proof -
  let ?env = "day_env [all_day_event ''d1'' ''2024-01-15'' ''2024-01-16'',
               timed_event ''e1'' ''2024-01-15T10:00:00+05:30'' ''2024-01-15T11:00:00+05:30'']"
  let ?env2 = "day_env [all_day_event ''d1'' ''2024-01-15'' ''2024-01-16'']"
  have d: "(0::int) < 30" by simp
  have wf: "\<forall>ws we events. window ?env ''2024-01-15'' 9 18 = Inr (ws, we) \<longrightarrow>
               events_list ?env ws we = Inr events \<longrightarrow> (\<forall>b\<in>set events. well_formed ?env b)"
    by (auto simp: day_env_def well_formed_def all_day_event_def timed_event_def parse_iso_def
          replace_Z_def day_iso_def ist_def)
  have run: "find_free_slots ?env ''2024-01-15'' 30 9 18
     = Inr [mk_slot (ist 9 0) (ist 10 0) 3600000000, mk_slot (ist 11 0) (ist 18 0) 25200000000]"
    by (simp add: run_simps)
  from free_slots_long_enough_and_chronological[OF d wf] run
  have a: "long_enough 30 (mk_slot (ist 9 0) (ist 10 0) 3600000000)
   \<and> long_enough 30 (mk_slot (ist 11 0) (ist 18 0) 25200000000)
   \<and> chronological [mk_slot (ist 9 0) (ist 10 0) 3600000000, mk_slot (ist 11 0) (ist 18 0) 25200000000]"
    by auto
  have wf2: "\<forall>ws we events. window ?env2 ''2024-01-15'' 9 18 = Inr (ws, we) \<longrightarrow>
               events_list ?env2 ws we = Inr events \<longrightarrow> (\<forall>b\<in>set events. well_formed ?env2 b)"
    by (auto simp: day_env_def well_formed_def all_day_event_def)
  have w2: "window ?env2 ''2024-01-15'' 9 18 = Inr (ist 9 0, ist 18 0)"
    by (simp add: run_simps)
  have l2: "events_list ?env2 (ist 9 0) (ist 18 0) = Inr [all_day_event ''d1'' ''2024-01-15'' ''2024-01-16'']"
    by (simp add: day_env_def)
  have n2: "filter timed [all_day_event ''d1'' ''2024-01-15'' ''2024-01-16''] = []"
    by (simp add: all_day_event_def)
  have g2: "30 * 60000000 \<le> instant (ist 18 0) - instant (ist 9 0)" by (simp add: ist_def)
  from free_slots_long_enough_and_chronological[OF d wf2] w2 l2 n2 g2
  have "find_free_slots ?env2 ''2024-01-15'' 30 9 18
     = Inr [mk_slot (ist 9 0) (ist 18 0) (instant (ist 18 0) - instant (ist 9 0))]"
    by blast
  then have b: "find_free_slots ?env2 ''2024-01-15'' 30 9 18
     = Inr [\<lparr>slot_start = ist 9 0, slot_end = ist 18 0, duration_minutes = 540\<rparr>]"
    by (simp add: mk_slot_def minutes_of_def ist_def)
  show ?thesis using run a b by simp
qed



text \<open>
  C6, as amended. Neither method validates a duration, and there is no \<open>InvalidDuration\<close>
  error. \<open>check_conflicts\<close> with a negative buffer computes \<open>start - buffer\<close> and
  \<open>end + buffer\<close>: when both stay in the range of \<open>datetime\<close> it queries the provider for
  that range, the narrower one, and reports the timed entries of the answer; when one
  leaves the range, the \<open>OverflowError\<close> is caught and the result is \<open>False\<close> with the error
  entry. \<open>find_free_slots\<close> with a non-positive minimum duration runs its sweep with that
  value: with no timed busy interval and a window that does not end before it starts, it
  returns the window as one slot.
\<close>

theorem durations_are_not_validated:
  "(buffer < 0 \<longrightarrow> parse_iso env start_time = Inr start_dt \<longrightarrow>
      parse_iso env end_time = Inr end_dt \<longrightarrow>
      (\<forall>padded_start padded_end events conflicts.
         dt_sub_minutes start_dt buffer = Inr padded_start \<longrightarrow>
         dt_add_minutes end_dt buffer = Inr padded_end \<longrightarrow>
         events_list env padded_start padded_end = Inr events \<longrightarrow>
         conflicts_loop events [] = Inr conflicts \<longrightarrow>
         check_conflicts env start_time end_time (Some buffer) = Inr (conflicts \<noteq> [], conflicts))
      \<and> ((\<exists>e. dt_sub_minutes start_dt buffer = Inl e) \<or> (\<exists>e. dt_add_minutes end_dt buffer = Inl e)
           \<longrightarrow> check_conflicts env start_time end_time (Some buffer)
                 = Inr (False, [ErrorEntry ''Unexpected error: '' OverflowError])))
   \<and> (duration \<le> 0 \<longrightarrow> window env date hs he = Inr (ws, we) \<longrightarrow>
        events_list env ws we = Inr listed \<longrightarrow> filter timed listed = [] \<longrightarrow>
        instant ws \<le> instant we \<longrightarrow>
        find_free_slots env date duration hs he = Inr [mk_slot ws we (instant we - instant ws)])"
proof -
  have "duration * 60000000 \<le> instant we - instant ws"
    if "duration \<le> 0" and "instant ws \<le> instant we"
  proof -
    have "duration * 60000000 \<le> 0" using that(1) by simp
    then show ?thesis using that(2) by linarith
  qed
  then have slots: "duration \<le> 0 \<longrightarrow> window env date hs he = Inr (ws, we) \<longrightarrow>
        events_list env ws we = Inr listed \<longrightarrow> filter timed listed = [] \<longrightarrow>
        instant ws \<le> instant we \<longrightarrow>
        find_free_slots env date duration hs he = Inr [mk_slot ws we (instant we - instant ws)]"
    using no_timed_whole_window[of env date hs he ws we listed duration] by auto
  have over: "check_conflicts env start_time end_time (Some buffer)
                 = Inr (False, [ErrorEntry ''Unexpected error: '' OverflowError])"
    if "parse_iso env start_time = Inr start_dt" and "parse_iso env end_time = Inr end_dt"
      and "(\<exists>e. dt_sub_minutes start_dt buffer = Inl e) \<or> (\<exists>e. dt_add_minutes end_dt buffer = Inl e)"
  proof -
    have "check_conflicts_try env start_time end_time (Some buffer) = Inl OverflowError"
      using that padding_error[of start_dt buffer] padding_error[of end_dt buffer]
      by (auto simp: check_conflicts_try_def split: sum.splits)
    then show ?thesis by (simp add: check_conflicts_def)
  qed
  show ?thesis using check_conflicts_listing over slots by blast
qed

text \<open>
  C6 with buffer \<open>- 15\<close> on a calendar holding 14:00 to 15:00, with buffer \<open>- 10000000000\<close>,
  whose padding leaves the range of \<open>datetime\<close>, and with minimum duration 0 on the window
  09:00 to 09:00.
\<close>

theorem durations_are_not_validated_witness:
  "check_conflicts
     (ranged_env [timed_event ''e1'' ''2024-01-15T14:00:00+05:30'' ''2024-01-15T15:00:00+05:30''])
     ''2024-01-15T14:00:00+05:30'' ''2024-01-15T15:00:00+05:30'' (Some (- 15))
   = Inr (True, [Conflict ''Busy'' ''2024-01-15T14:00:00+05:30'' ''2024-01-15T15:00:00+05:30'' ''e1''])
   \<and> check_conflicts
       (ranged_env [timed_event ''e1'' ''2024-01-15T14:00:00+05:30'' ''2024-01-15T15:00:00+05:30''])
       ''2024-01-15T14:00:00+05:30'' ''2024-01-15T15:00:00+05:30'' (Some (- 10000000000))
     = Inr (False, [ErrorEntry ''Unexpected error: '' OverflowError])
   \<and> find_free_slots (day_env []) ''2024-01-15'' 0 9 9
     = Inr [\<lparr>slot_start = ist 9 0, slot_end = ist 9 0, duration_minutes = 0\<rparr>]"
proof -
  let ?cal = "[timed_event ''e1'' ''2024-01-15T14:00:00+05:30'' ''2024-01-15T15:00:00+05:30'']"
  have 0: "(- 15 :: int) < 0" "(- 10000000000 :: int) < 0" "(0::int) \<le> 0" by simp_all
  have 1: "parse_iso (ranged_env ?cal) ''2024-01-15T14:00:00+05:30'' = Inr (ist 14 0)"
    by (simp add: run_simps)
  have 2: "parse_iso (ranged_env ?cal) ''2024-01-15T15:00:00+05:30'' = Inr (ist 15 0)"
    by (simp add: run_simps)
  have 3: "dt_sub_minutes (ist 14 0) (- 15) = Inr (ist 14 15)"
    "dt_add_minutes (ist 15 0) (- 15) = Inr (ist 14 45)"
    by (simp_all add: run_simps)
  have 4: "events_list (ranged_env ?cal) (ist 14 15) (ist 14 45) = Inr ?cal"
    by (simp add: run_simps)
  have 5: "conflicts_loop ?cal []
     = Inr [Conflict ''Busy'' ''2024-01-15T14:00:00+05:30'' ''2024-01-15T15:00:00+05:30'' ''e1'']"
    by (simp add: timed_event_def conflict_of_def)
  have 6: "dt_sub_minutes (ist 14 0) (- 10000000000) = Inl OverflowError"
    by (simp add: run_simps)
  have 7: "window (day_env []) ''2024-01-15'' 9 9 = Inr (ist 9 0, ist 9 0)"
    by (simp add: run_simps)
  have 8: "events_list (day_env []) (ist 9 0) (ist 9 0) = Inr []" by (simp add: day_env_def)
  have 9: "filter timed ([] :: gevent list) = []" "instant (ist 9 0) \<le> instant (ist 9 0)"
    by simp_all
  from durations_are_not_validated[where env = "ranged_env ?cal" and buffer = "- 15"
      and start_time = "''2024-01-15T14:00:00+05:30''" and end_time = "''2024-01-15T15:00:00+05:30''"
      and start_dt = "ist 14 0" and end_dt = "ist 15 0"]
    0 1 2 3 4 5
  have a: "check_conflicts (ranged_env ?cal)
     ''2024-01-15T14:00:00+05:30'' ''2024-01-15T15:00:00+05:30'' (Some (- 15))
   = Inr ([Conflict ''Busy'' ''2024-01-15T14:00:00+05:30'' ''2024-01-15T15:00:00+05:30'' ''e1''] \<noteq> [],
          [Conflict ''Busy'' ''2024-01-15T14:00:00+05:30'' ''2024-01-15T15:00:00+05:30'' ''e1''])"
    by blast
  from durations_are_not_validated[where env = "ranged_env ?cal" and buffer = "- 10000000000"
      and start_time = "''2024-01-15T14:00:00+05:30''" and end_time = "''2024-01-15T15:00:00+05:30''"
      and start_dt = "ist 14 0" and end_dt = "ist 15 0"]
    0 1 2 6
  have b: "check_conflicts (ranged_env ?cal)
     ''2024-01-15T14:00:00+05:30'' ''2024-01-15T15:00:00+05:30'' (Some (- 10000000000))
   = Inr (False, [ErrorEntry ''Unexpected error: '' OverflowError])"
    by blast
  from durations_are_not_validated[where env = "day_env []" and duration = 0
      and date = "''2024-01-15''" and hs = 9 and he = 9 and ws = "ist 9 0" and we = "ist 9 0"
      and listed = "[]"] 0 7 8 9
  have c: "find_free_slots (day_env []) ''2024-01-15'' 0 9 9
     = Inr [mk_slot (ist 9 0) (ist 9 0) (instant (ist 9 0) - instant (ist 9 0))]"
    by blast
  show ?thesis using a b c by (simp add: mk_slot_def minutes_of_def)
qed

text \<open>
  C6 as stated fails: buffer \<open>- 5\<close> is accepted and a result returned; minimum duration 0
  gives the whole window; minimum duration \<open>- 90\<close> gives, before a busy interval 08:00 to
  10:00, a slot from 09:00 back to 08:00.
\<close>

theorem negative_buffer_and_zero_duration_are_accepted:
  "check_conflicts
     (ranged_env [timed_event ''e1'' ''2024-01-15T14:00:00+05:30'' ''2024-01-15T15:00:00+05:30''])
     ''2024-01-15T14:00:00+05:30'' ''2024-01-15T15:00:00+05:30'' (Some (- 5))
   = Inr (True, [Conflict ''Busy'' ''2024-01-15T14:00:00+05:30'' ''2024-01-15T15:00:00+05:30'' ''e1''])
   \<and> find_free_slots (ranged_env []) ''2024-01-15'' 0 9 18
     = Inr [\<lparr>slot_start = ist 9 0, slot_end = ist 18 0, duration_minutes = 540\<rparr>]
   \<and> find_free_slots
       (ranged_env [timed_event ''e1'' ''2024-01-15T08:00:00+05:30'' ''2024-01-15T10:00:00+05:30''])
       ''2024-01-15'' (- 90) 9 18
     = Inr [\<lparr>slot_start = ist 9 0, slot_end = ist 8 0, duration_minutes = - 60\<rparr>,
            \<lparr>slot_start = ist 10 0, slot_end = ist 18 0, duration_minutes = 480\<rparr>]"
  by (simp add: run_simps)

text \<open>
  C7. Candidate 14:00 to 15:00 and busy list 15:10 to 16:00, behind a provider that honours
  the query: with buffer 15 the padded candidate ends 15:15, after the busy start 15:10,
  and \<open>check_conflicts\<close> returns true; with buffer 5 it ends 15:05 and \<open>check_conflicts\<close>
  returns false.
\<close>

theorem scenario_D_E_with_ranged_provider:
  "dt_add_minutes (ist 15 0) 15 = Inr (ist 15 15)
   \<and> dt_add_minutes (ist 15 0) 5 = Inr (ist 15 5)
   \<and> parse_iso (ranged_env []) ''2024-01-15T15:10:00+05:30'' = Inr (ist 15 10)
   \<and> check_conflicts
       (ranged_env [timed_event ''e1'' ''2024-01-15T15:10:00+05:30'' ''2024-01-15T16:00:00+05:30''])
       ''2024-01-15T14:00:00+05:30'' ''2024-01-15T15:00:00+05:30'' (Some 15)
     = Inr (True, [Conflict ''Busy'' ''2024-01-15T15:10:00+05:30'' ''2024-01-15T16:00:00+05:30'' ''e1''])
   \<and> check_conflicts
       (ranged_env [timed_event ''e1'' ''2024-01-15T15:10:00+05:30'' ''2024-01-15T16:00:00+05:30''])
       ''2024-01-15T14:00:00+05:30'' ''2024-01-15T15:00:00+05:30'' (Some 5)
     = Inr (False, [])"
  by (simp add: run_simps)

text \<open>
  C8. Window 09:00 to 18:00, one busy interval 08:00 to 19:00, minimum 15 minutes:
  \<open>find_free_slots\<close> returns the empty list. The loop emits nothing and leaves the cursor
  at 19:00, the busy interval's end, by \<open>max\<close>; the check against the window's end then
  finds no room. In every run of the loop the cursor never moves backward, and each slot
  the loop emits starts at or after the cursor it began with and passed the gap test.
\<close>

theorem scenario_C_fully_spanning:
  "find_free_slots
     (day_env [timed_event ''e1'' ''2024-01-15T08:00:00+05:30'' ''2024-01-15T19:00:00+05:30''])
     ''2024-01-15'' 15 9 18 = Inr []
   \<and> slots_loop
       (day_env [timed_event ''e1'' ''2024-01-15T08:00:00+05:30'' ''2024-01-15T19:00:00+05:30''])
       15 [timed_event ''e1'' ''2024-01-15T08:00:00+05:30'' ''2024-01-15T19:00:00+05:30'']
       (ist 9 0) [] = Inr (ist 19 0, [])
   \<and> trailing_slot 15 (ist 18 0) (ist 19 0) [] = Inr []
   \<and> (\<forall>env d events cur slots cur' slots'.
        slots_loop env d events cur slots = Inr (cur', slots') \<longrightarrow>
        instant cur \<le> instant cur'
        \<and> (\<exists>new. slots' = slots @ new
             \<and> (\<forall>s\<in>set new. instant cur \<le> instant (slot_start s) \<and> long_enough d s)))"
proof -
  have a: "find_free_slots
     (day_env [timed_event ''e1'' ''2024-01-15T08:00:00+05:30'' ''2024-01-15T19:00:00+05:30''])
     ''2024-01-15'' 15 9 18 = Inr []"
    by (simp add: run_simps)
  have b: "slots_loop
       (day_env [timed_event ''e1'' ''2024-01-15T08:00:00+05:30'' ''2024-01-15T19:00:00+05:30''])
       15 [timed_event ''e1'' ''2024-01-15T08:00:00+05:30'' ''2024-01-15T19:00:00+05:30'']
       (ist 9 0) [] = Inr (ist 19 0, [])"
    by (simp add: run_simps)
  have c: "trailing_slot 15 (ist 18 0) (ist 19 0) [] = Inr []"
    by (simp add: run_simps)
  show ?thesis using a b c slots_loop_cursor by blast
qed

text \<open>The general part of C8 on a run with a busy interval before the window's start.\<close>

theorem scenario_C_fully_spanning_witness:
  "slots_loop
     (day_env [])
     30 [timed_event ''e1'' ''2024-01-15T10:00:00+05:30'' ''2024-01-15T11:00:00+05:30'',
         timed_event ''e2'' ''2024-01-15T08:00:00+05:30'' ''2024-01-15T09:00:00+05:30'']
     (ist 9 0) [] = Inr (ist 11 0, [mk_slot (ist 9 0) (ist 10 0) 3600000000])
   \<and> instant (ist 9 0) \<le> instant (ist 11 0)
   \<and> (\<exists>new. [mk_slot (ist 9 0) (ist 10 0) 3600000000] = [] @ new
         \<and> (\<forall>s\<in>set new. instant (ist 9 0) \<le> instant (slot_start s) \<and> long_enough 30 s))"
proof -
  have run: "slots_loop
     (day_env [])
     30 [timed_event ''e1'' ''2024-01-15T10:00:00+05:30'' ''2024-01-15T11:00:00+05:30'',
         timed_event ''e2'' ''2024-01-15T08:00:00+05:30'' ''2024-01-15T09:00:00+05:30'']
     (ist 9 0) [] = Inr (ist 11 0, [mk_slot (ist 9 0) (ist 10 0) 3600000000])"
    by (simp add: run_simps)
  from scenario_C_fully_spanning have
    "slots_loop (day_env [])
     30 [timed_event ''e1'' ''2024-01-15T10:00:00+05:30'' ''2024-01-15T11:00:00+05:30'',
         timed_event ''e2'' ''2024-01-15T08:00:00+05:30'' ''2024-01-15T09:00:00+05:30'']
     (ist 9 0) [] = Inr (ist 11 0, [mk_slot (ist 9 0) (ist 10 0) 3600000000]) \<longrightarrow>
     instant (ist 9 0) \<le> instant (ist 11 0)
   \<and> (\<exists>new. [mk_slot (ist 9 0) (ist 10 0) 3600000000] = [] @ new
         \<and> (\<forall>s\<in>set new. instant (ist 9 0) \<le> instant (slot_start s) \<and> long_enough 30 s))"
    by blast
  with run show ?thesis by blast
qed

text \<open>
  C9. Whenever the body of \<open>check_conflicts\<close> raises, the method returns \<open>False\<close> with a
  one-element list holding an error entry, not a busy interval; \<open>schedule_event\<close>, which
  looks at the boolean only, then goes on to create the event.
\<close>

theorem check_conflicts_error_reads_as_no_conflict:
  assumes "check_conflicts_try env start_time end_time buffer_minutes = Inl err"
  shows "check_conflicts env start_time end_time buffer_minutes
           = Inr (False,
                  [ErrorEntry (if err = HttpError then ''API error: '' else ''Unexpected error: '')
                     err])
         \<and> (buffer_minutes = Some (case buffer_time of None \<Rightarrow> 15 | Some b \<Rightarrow> b) \<longrightarrow>
              schedule_event env buffer_time start_time end_time
                = Inr (CreateEvent start_time end_time))"
proof -
  have a: "check_conflicts env start_time end_time buffer_minutes
           = Inr (False,
                  [ErrorEntry (if err = HttpError then ''API error: '' else ''Unexpected error: '')
                     err])"
    using assms by (cases err) (simp_all add: check_conflicts_def)
  then show ?thesis by (auto simp: schedule_event_def)
qed

text \<open>C9 on a start timestamp that does not parse.\<close>

theorem check_conflicts_error_reads_as_no_conflict_witness:
  "check_conflicts (day_env []) ''tomorrow at nine'' ''2024-01-15T15:00:00+05:30'' (Some 15)
     = Inr (False, [ErrorEntry ''Unexpected error: '' ValueError])
   \<and> schedule_event (day_env []) None ''tomorrow at nine'' ''2024-01-15T15:00:00+05:30''
     = Inr (CreateEvent ''tomorrow at nine'' ''2024-01-15T15:00:00+05:30'')"
proof -
  have t: "check_conflicts_try (day_env []) ''tomorrow at nine'' ''2024-01-15T15:00:00+05:30''
             (Some 15) = Inl ValueError"
    by (simp add: check_conflicts_try_def parse_iso_def day_env_def replace_Z_def day_iso_def)
  from check_conflicts_error_reads_as_no_conflict[OF t, of None]
  show ?thesis by simp
qed

text \<open>
  C10, as amended. Every slot the loop of \<open>find_free_slots\<close> emits ends at the start of a
  listed busy interval, taken as it is and not clipped to the window; only the trailing
  slot ends at the window's end. The query bounds the listed starts: the provider lists
  only busy intervals that start before \<open>timeMax\<close>, the window's end, so that no emitted
  slot extends past the window's end.
\<close>

theorem slot_ends_are_listed_starts:
  assumes "window env date hs he = Inr (ws, we)"
    and "events_list env ws we = Inr answer"
    and "find_free_slots env date d hs he = Inr slots" and "s \<in> set slots"
  shows "(slot_end s = we
          \<or> (\<exists>b\<in>set answer. \<exists>t. ev_start b = DateTime t \<and> parse_iso env t = Inr (slot_end s)))
     \<and> ((\<forall>b\<in>set answer. timed b \<longrightarrow> spec_overlap (fromisoformat env) ws we b) \<longrightarrow>
          instant (slot_end s) \<le> instant we)"
  using find_free_slots_slot_ends[OF assms] listed_slot_end_in_window[OF assms(1,2) _ assms(3,4)]
  by blast

text \<open>
  C10 on a calendar with the busy intervals 10:00 to 11:00 and 19:00 to 20:00: the second
  starts after the window's end and is not listed; the first slot ends at 10:00, the busy
  start, the second at 18:00, the window's end.
\<close>

theorem slot_ends_are_listed_starts_witness:
  "find_free_slots
     (ranged_env [timed_event ''e1'' ''2024-01-15T10:00:00+05:30'' ''2024-01-15T11:00:00+05:30'',
                  timed_event ''e2'' ''2024-01-15T19:00:00+05:30'' ''2024-01-15T20:00:00+05:30''])
     ''2024-01-15'' 30 9 18
   = Inr [\<lparr>slot_start = ist 9 0, slot_end = ist 10 0, duration_minutes = 60\<rparr>,
          \<lparr>slot_start = ist 11 0, slot_end = ist 18 0, duration_minutes = 420\<rparr>]
   \<and> parse_iso (ranged_env []) ''2024-01-15T10:00:00+05:30'' = Inr (ist 10 0)
   \<and> instant (ist 10 0) \<le> instant (ist 18 0)"
proof -
  let ?cal = "[timed_event ''e1'' ''2024-01-15T10:00:00+05:30'' ''2024-01-15T11:00:00+05:30'',
               timed_event ''e2'' ''2024-01-15T19:00:00+05:30'' ''2024-01-15T20:00:00+05:30'']"
  let ?s = "\<lparr>slot_start = ist 9 0, slot_end = ist 10 0, duration_minutes = 60\<rparr>"
  have w: "window (ranged_env ?cal) ''2024-01-15'' 9 18 = Inr (ist 9 0, ist 18 0)"
    by (simp add: run_simps)
  have l: "events_list (ranged_env ?cal) (ist 9 0) (ist 18 0)
      = Inr [timed_event ''e1'' ''2024-01-15T10:00:00+05:30'' ''2024-01-15T11:00:00+05:30'']"
    by (simp add: run_simps)
  have r: "find_free_slots (ranged_env ?cal) ''2024-01-15'' 30 9 18
      = Inr [?s, \<lparr>slot_start = ist 11 0, slot_end = ist 18 0, duration_minutes = 420\<rparr>]"
    by (simp add: run_simps)
  have s: "?s \<in> set [?s, \<lparr>slot_start = ist 11 0, slot_end = ist 18 0, duration_minutes = 420\<rparr>]"
    by simp
  have h: "\<forall>b\<in>set [timed_event ''e1'' ''2024-01-15T10:00:00+05:30'' ''2024-01-15T11:00:00+05:30''].
      timed b \<longrightarrow> spec_overlap (fromisoformat (ranged_env ?cal)) (ist 9 0) (ist 18 0) b"
    by (simp add: run_simps)
  have p: "parse_iso (ranged_env []) ''2024-01-15T10:00:00+05:30'' = Inr (ist 10 0)"
    by (simp add: run_simps)
  from slot_ends_are_listed_starts[OF w l r s] h
  have "instant (slot_end ?s) \<le> instant (ist 18 0)" by blast
  then show ?thesis using r p by simp
qed

text \<open>
  C10 as stated fails: for no calendar and no minimum duration does a slot of the day's
  window 09:00 to 18:00 end after 18:00; with the busy interval 19:00 to 20:00, which
  starts after the window's end, the result is the one slot 09:00 to 18:00.
\<close>

theorem no_slot_ends_after_window_end:
  "\<not> (\<exists>calendar d slots s.
         find_free_slots (ranged_env calendar) ''2024-01-15'' d 9 18 = Inr slots
         \<and> s \<in> set slots \<and> instant (ist 18 0) < instant (slot_end s))
   \<and> find_free_slots
       (ranged_env [timed_event ''e1'' ''2024-01-15T19:00:00+05:30'' ''2024-01-15T20:00:00+05:30''])
       ''2024-01-15'' 30 9 18
     = Inr [\<lparr>slot_start = ist 9 0, slot_end = ist 18 0, duration_minutes = 540\<rparr>]"
proof -
  have "instant (slot_end s) \<le> instant (ist 18 0)"
    if r: "find_free_slots (ranged_env calendar) ''2024-01-15'' d 9 18 = Inr slots"
      and s: "s \<in> set slots" for calendar d slots s
  proof -
    have w: "window (ranged_env calendar) ''2024-01-15'' 9 18 = Inr (ist 9 0, ist 18 0)"
      by (simp add: run_simps)
    obtain answer where l: "events_list (ranged_env calendar) (ist 9 0) (ist 18 0) = Inr answer"
      by (simp add: ranged_env_def provider_env_def provider_list_def)
    have p: "fromisoformat (ranged_env calendar) = fromisoformat (day_env [])"
      by (simp add: ranged_env_def provider_env_def)
    have h: "\<forall>b\<in>set answer. timed b \<longrightarrow>
        spec_overlap (fromisoformat (ranged_env calendar)) (ist 9 0) (ist 18 0) b"
      unfolding p using provider_answer_in_range[OF l[unfolded ranged_env_def]] by blast
    show ?thesis by (rule listed_slot_end_in_window[OF w l h r s])
  qed
  then have a: "\<not> (\<exists>calendar d slots s.
         find_free_slots (ranged_env calendar) ''2024-01-15'' d 9 18 = Inr slots
         \<and> s \<in> set slots \<and> instant (ist 18 0) < instant (slot_end s))"
    by (meson not_le)
  have b: "find_free_slots
       (ranged_env [timed_event ''e1'' ''2024-01-15T19:00:00+05:30'' ''2024-01-15T20:00:00+05:30''])
       ''2024-01-15'' 30 9 18
     = Inr [\<lparr>slot_start = ist 9 0, slot_end = ist 18 0, duration_minutes = 540\<rparr>]"
    by (simp add: run_simps)
  show ?thesis using a b by blast
qed

end
